theory Spec2Isabelle
  imports Complex_Main "HOL-Library.Word"
begin

section \<open>The application store (src/store/useAppStore.ts)\<close>

text \<open>
  The zustand store is one record; every action takes the state and returns the new
  one (\<open>set\<close> merges the given fields into the state, \<open>get\<close> reads it).
  A value of type \<open>string | null\<close> is a \<open>string option\<close>. The brush size and the
  zoom are real numbers, the doubles of the source idealised (the handlers only add,
  multiply and compare them with the bounds). The arithmetic on pixels in the canvas
  component is modelled in double precision, further down. \<open>historyIndex\<close> is an
  \<open>int\<close>, since it starts at \<open>-1\<close>.
\<close>

datatype brush = erase | restore

record AppState =
  originalImage :: "string option"
  processedImage :: "string option"
  maskImage :: "string option"
  isProcessing :: bool
  processingProgress :: real
  error :: "string option"
  brushSize :: real
  brushMode :: brush
  zoom :: real
  pan :: "real \<times> real"
  history :: "string list"
  historyIndex :: int

text \<open>The initial state of the store (lines 57-70).\<close>

definition initialState :: AppState where
  "initialState =
     \<lparr> originalImage = None, processedImage = None, maskImage = None,
       isProcessing = False, processingProgress = 0, error = None,
       brushSize = 50, brushMode = erase, zoom = 1, pan = (0, 0),
       history = [], historyIndex = -1 \<rparr>"

subsection \<open>JavaScript array primitives used by the history\<close>

text \<open>
  \<open>xs.slice(0, end)\<close>: a negative \<open>end\<close> counts from the end of the array, and the
  result is cut to the array's bounds.
\<close>

definition js_slice0 :: "'a list \<Rightarrow> int \<Rightarrow> 'a list" where
  "js_slice0 xs e =
     (let n = int (length xs);
          k = (if e < 0 then max (n + e) 0 else min e n)
      in take (nat k) xs)"

text \<open>\<open>xs[i]\<close>: \<open>undefined\<close> (here \<open>None\<close>) outside the array.\<close>

definition js_at :: "'a list \<Rightarrow> int \<Rightarrow> 'a option" where
  "js_at xs i = (if 0 \<le> i \<and> i < int (length xs) then Some (xs ! nat i) else None)"

text \<open>\<open>xs.shift()\<close> removes the first element; on the empty array it does nothing.\<close>

definition js_shift :: "'a list \<Rightarrow> 'a list" where
  "js_shift xs = (case xs of [] \<Rightarrow> [] | _ # ys \<Rightarrow> ys)"

text \<open>
  The truth value of a \<open>string | null\<close> in a condition: \<open>null\<close> and the empty string
  are falsy.
\<close>

definition truthy :: "string option \<Rightarrow> bool" where
  "truthy v = (case v of None \<Rightarrow> False | Some s \<Rightarrow> s \<noteq> [])"

subsection \<open>Actions\<close>

definition setOriginalImage :: "string option \<Rightarrow> AppState \<Rightarrow> AppState" where
  "setOriginalImage img s =
     s\<lparr> originalImage := img, processedImage := None, maskImage := None,
        error := None, history := [], historyIndex := -1 \<rparr>"

definition setProcessedImage :: "string option \<Rightarrow> AppState \<Rightarrow> AppState" where
  "setProcessedImage img s =
     (let s1 = s\<lparr> processedImage := img, maskImage := img \<rparr>
      in case img of
           None \<Rightarrow> s1
         | Some i \<Rightarrow> if truthy img then s1\<lparr> history := [i], historyIndex := 0 \<rparr> else s1)"

definition setMaskImage :: "string option \<Rightarrow> AppState \<Rightarrow> AppState" where
  "setMaskImage img s = s\<lparr> maskImage := img \<rparr>"

definition setBrushSize :: "real \<Rightarrow> AppState \<Rightarrow> AppState" where
  "setBrushSize sz s = s\<lparr> brushSize := sz \<rparr>"

definition setBrushMode :: "brush \<Rightarrow> AppState \<Rightarrow> AppState" where
  "setBrushMode mode s = s\<lparr> brushMode := mode \<rparr>"

definition setZoom :: "real \<Rightarrow> AppState \<Rightarrow> AppState" where
  "setZoom z s = s\<lparr> zoom := z \<rparr>"

definition setPan :: "real \<times> real \<Rightarrow> AppState \<Rightarrow> AppState" where
  "setPan p s = s\<lparr> pan := p \<rparr>"

definition addToHistory :: "string \<Rightarrow> AppState \<Rightarrow> AppState" where
  "addToHistory img s =
     (let pushed = js_slice0 (history s) (historyIndex s + 1) @ [img];
          newHistory = (if length pushed > 10 then js_shift pushed else pushed)
      in s\<lparr> history := newHistory,
            historyIndex := int (length newHistory) - 1,
            maskImage := Some img,
            processedImage := Some img \<rparr>)"

definition undo :: "AppState \<Rightarrow> AppState" where
  "undo s =
     (if historyIndex s > 0 then
        (let newIndex = historyIndex s - 1;
             prevImage = js_at (history s) newIndex
         in s\<lparr> historyIndex := newIndex, maskImage := prevImage,
               processedImage := prevImage \<rparr>)
      else s)"

definition redo :: "AppState \<Rightarrow> AppState" where
  "redo s =
     (if historyIndex s < int (length (history s)) - 1 then
        (let newIndex = historyIndex s + 1;
             nextImage = js_at (history s) newIndex
         in s\<lparr> historyIndex := newIndex, maskImage := nextImage,
               processedImage := nextImage \<rparr>)
      else s)"

definition reset :: "AppState \<Rightarrow> AppState" where
  "reset s =
     s\<lparr> originalImage := None, processedImage := None, maskImage := None,
        isProcessing := False, processingProgress := 0, error := None,
        zoom := 1, pan := (0, 0), history := [], historyIndex := -1 \<rparr>"

section \<open>The canvas component (src/components/CanvasViewer.tsx)\<close>

subsection \<open>Keyboard, wheel and toolbar input\<close>

text \<open>
  The DOM events, with the fields the handlers read. The modifier flags are shared by
  keyboard and wheel events. \<open>key\<close> is the value of \<open>KeyboardEvent.key\<close>: the
  character the key produces under the modifiers held, so the Z key gives \<open>''z''\<close>
  alone and \<open>''Z''\<close> with Shift.
\<close>

record UIEvent =
  ctrlKey :: bool
  metaKey :: bool
  shiftKey :: bool

record KeyboardEvent = UIEvent +
  key :: string

record WheelEvent = UIEvent +
  deltaY :: real

definition handleKeyDown :: "KeyboardEvent \<Rightarrow> AppState \<Rightarrow> AppState" where
  "handleKeyDown e s =
     (if key e = ''['' then setBrushSize (max (brushSize s - 10) 10) s
      else if key e = '']'' then setBrushSize (min (brushSize s + 10) 200) s
      else if key e = ''e'' then setBrushMode erase s
      else if key e = ''r'' then setBrushMode restore s
      else if (ctrlKey e \<or> metaKey e) \<and> key e = ''z'' then
        (if shiftKey e then redo s else undo s)
      else s)"

definition handleWheel :: "WheelEvent \<Rightarrow> AppState \<Rightarrow> AppState" where
  "handleWheel e s =
     (if ctrlKey e \<or> metaKey e then
        (let delta = (if deltaY e > 0 then 0.9 else 1.1);
             newZoom = min (max (zoom s * delta) 0.1) 5
         in setZoom newZoom s)
      else s)"

text \<open>The \<open>onClick\<close> handlers of the four toolbar buttons (lines 412, 420, 482, 486).\<close>

definition onClickBrushMinus :: "AppState \<Rightarrow> AppState" where
  "onClickBrushMinus s = setBrushSize (max (brushSize s - 10) 10) s"

definition onClickBrushPlus :: "AppState \<Rightarrow> AppState" where
  "onClickBrushPlus s = setBrushSize (min (brushSize s + 10) 200) s"

definition onClickZoomOut :: "AppState \<Rightarrow> AppState" where
  "onClickZoomOut s = setZoom (max (zoom s - 0.1) 0.1) s"

definition onClickZoomIn :: "AppState \<Rightarrow> AppState" where
  "onClickZoomIn s = setZoom (min (zoom s + 0.1) 5) s"

text \<open>
  Everything the component and the background-removal hook do to the store, as one
  input alphabet: the state after a list of inputs is the fold of \<open>step\<close>.
\<close>

datatype input =
    KeyDown KeyboardEvent
  | Wheel WheelEvent
  | ClickBrushMinus
  | ClickBrushPlus
  | ClickZoomOut
  | ClickZoomIn
  | ClickErase
  | ClickRestore
  | ClickUndo
  | ClickRedo
  | ClickStartOver
  | Commit string
  | Upload "string option"
  | Processed "string option"

fun step :: "input \<Rightarrow> AppState \<Rightarrow> AppState" where
  "step (KeyDown e) s = handleKeyDown e s"
| "step (Wheel e) s = handleWheel e s"
| "step ClickBrushMinus s = onClickBrushMinus s"
| "step ClickBrushPlus s = onClickBrushPlus s"
| "step ClickZoomOut s = onClickZoomOut s"
| "step ClickZoomIn s = onClickZoomIn s"
| "step ClickErase s = setBrushMode erase s"
| "step ClickRestore s = setBrushMode restore s"
| "step ClickUndo s = undo s"
| "step ClickRedo s = redo s"
| "step ClickStartOver s = reset s"
| "step (Commit img) s = addToHistory img s"
| "step (Upload img) s = setOriginalImage img s"
| "step (Processed img) s = setProcessedImage img s"

definition run :: "input list \<Rightarrow> AppState \<Rightarrow> AppState" where
  "run inputs s = fold step inputs s"

text \<open>
  The invariant of the history: at most ten entries; the index is \<open>-1\<close> on the empty
  history and the position of an entry otherwise.
\<close>

definition hist_inv :: "AppState \<Rightarrow> bool" where
  "hist_inv s =
     (length (history s) \<le> 10 \<and>
      (if history s = [] then historyIndex s = -1
       else 0 \<le> historyIndex s \<and> historyIndex s < int (length (history s))))"

text \<open>The ranges of the brush size and of the zoom.\<close>

definition in_range :: "AppState \<Rightarrow> bool" where
  "in_range s = (10 \<le> brushSize s \<and> brushSize s \<le> 200 \<and> 0.1 \<le> zoom s \<and> zoom s \<le> 5)"

subsection \<open>Canvases\<close>

text \<open>
  A canvas is modelled by the \<open>data\<close> array of its \<open>ImageData\<close> over the whole
  canvas: four bytes (red, green, blue, alpha) per pixel, row after row. The component
  gives the visible canvas, the offscreen canvas (the edited image) and the selection
  canvas the width and height of the loaded image (lines 69-70, 77-78, 134-135), so in
  \<open>applySmartSelection\<close> the three calls of \<open>getImageData(0, 0, width, height)\<close> return
  arrays of one length, \<open>4 * width * height\<close>.
\<close>

type_synonym byte = "8 word"

text \<open>A byte read from a \<open>Uint8ClampedArray\<close>, as a number.\<close>

definition num :: "byte \<Rightarrow> real" where
  "num b = real (unat b)"

subsection \<open>Double-precision arithmetic\<close>

text \<open>
  A JavaScript \<open>number\<close> is an IEEE 754 binary64 value. The numbers of
  \<open>applySmartSelection\<close> are modelled as the reals they denote, and every operation
  returns the exact result rounded to the nearest double, ties to the even mantissa:
  \<open>rnd64 x\<close> is the multiple of \<open>2 ^ (e - 52)\<close> nearest to \<open>x\<close>, where
  \<open>2 ^ e \<le> \<bar>x\<bar> < 2 ^ (e + 1)\<close>. The exponent is not bounded in the model: there is
  no overflow to \<open>Infinity\<close> and there are no subnormal numbers. The handler does
  not reach either: on an image of fewer than \<open>2 ^ 53 / 255\<close> pixels its sums,
  quotients, differences, squares and roots are 0 or lie between \<open>2 ^ - 200\<close> and
  \<open>2 ^ 53\<close> in magnitude, and it divides only by a count that is not 0.
\<close>

definition rne :: "real \<Rightarrow> int" where
  "rne x =
     (let f = \<lfloor>x\<rfloor>; d = x - of_int f
      in if d < 1 / 2 then f
         else if 1 / 2 < d then f + 1
         else if even f then f else f + 1)"

definition rnd64 :: "real \<Rightarrow> real" where
  "rnd64 x =
     (if x = 0 then 0
      else (let u = 2 powi (\<lfloor>log 2 \<bar>x\<bar>\<rfloor> - 52)
            in of_int (rne (x / u)) * u))"

text \<open>
  The operators \<open>+\<close>, \<open>-\<close>, \<open>/\<close> and \<open>Math.sqrt\<close>, each the exact result
  rounded once. ECMAScript leaves the accuracy of \<open>Math.pow\<close> to the engine; for
  the exponent 2 the engines return the square rounded once, and so does the model.
\<close>

definition js_add :: "real \<Rightarrow> real \<Rightarrow> real" where
  "js_add x y = rnd64 (x + y)"

definition js_sub :: "real \<Rightarrow> real \<Rightarrow> real" where
  "js_sub x y = rnd64 (x - y)"

definition js_div :: "real \<Rightarrow> real \<Rightarrow> real" where
  "js_div x y = rnd64 (x / y)"

definition Math_pow2 :: "real \<Rightarrow> real" where
  "Math_pow2 x = rnd64 (x * x)"

definition Math_sqrt :: "real \<Rightarrow> real" where
  "Math_sqrt x = rnd64 (sqrt x)"

text \<open>
  The state of a 2D rendering context that \<open>render\<close> touches: the global alpha, the
  filter, the stack of \<open>save\<close>, and what has been drawn onto the bitmap since it
  was last cleared, bottom layer first. A drawn layer records the pixels passed to
  \<open>drawImage\<close> together with the global alpha and the filter in force at the call.
\<close>

datatype css_filter = no_filter | opacity real

record layer =
  pixels :: "byte list"
  alpha :: real
  filtered :: css_filter

record Context2D =
  globalAlpha :: real
  ctx_filter :: css_filter
  saved :: "(real \<times> css_filter) list"
  drawn :: "layer list"

text \<open>A fresh context: \<open>globalAlpha\<close> is 1 and \<open>filter\<close> is \<open>none\<close>.\<close>

definition newContext :: Context2D where
  "newContext = \<lparr> globalAlpha = 1, ctx_filter = no_filter, saved = [], drawn = [] \<rparr>"

definition ctx_save :: "Context2D \<Rightarrow> Context2D" where
  "ctx_save ctx = ctx\<lparr> saved := (globalAlpha ctx, ctx_filter ctx) # saved ctx \<rparr>"

definition ctx_restore :: "Context2D \<Rightarrow> Context2D" where
  "ctx_restore ctx =
     (case saved ctx of
        [] \<Rightarrow> ctx
      | (a, f) # rest \<Rightarrow> ctx\<lparr> globalAlpha := a, ctx_filter := f, saved := rest \<rparr>)"

text \<open>\<open>clearRect\<close> over the whole canvas.\<close>

definition clearRect :: "Context2D \<Rightarrow> Context2D" where
  "clearRect ctx = ctx\<lparr> drawn := [] \<rparr>"

definition drawImage :: "byte list \<Rightarrow> Context2D \<Rightarrow> Context2D" where
  "drawImage src ctx =
     ctx\<lparr> drawn := drawn ctx @
            [\<lparr> pixels = src, alpha = globalAlpha ctx, filtered = ctx_filter ctx \<rparr>] \<rparr>"

text \<open>
  The component's state: the store, the refs (\<open>None\<close> is a ref that is still
  \<open>null\<close>), the decoded original image, and the dragging flag. A canvas is held as
  the array \<open>getImageData\<close> returns for it.
\<close>

record Viewer =
  store :: AppState
  canvasRef :: "Context2D option"
  offscreenCanvasRef :: "byte list option"
  selectionCanvasRef :: "byte list option"
  imgObj :: "byte list option"
  isDragging :: bool

subsection \<open>render (lines 124-161)\<close>

text \<open>
  \<open>render\<close> returns at once while the visible canvas, the offscreen canvas or the
  image is missing. \<open>brushMode\<close> and \<open>isDragging\<close> are the values the callback was
  created with; the model reads them from the state.
\<close>

definition render :: "Viewer \<Rightarrow> Viewer" where
  "render v =
     (case (canvasRef v, offscreenCanvasRef v, imgObj v) of
        (Some ctx, Some osc, Some img) \<Rightarrow>
          (let ctx1 = clearRect ctx;
               ctx2 = (if brushMode (store v) = restore then
                         ctx_restore
                           (drawImage img
                              ((ctx_save ctx1)\<lparr> globalAlpha := 0.3, ctx_filter := opacity 0.3 \<rparr>))
                       else ctx1);
               ctx3 = drawImage osc ctx2;
               ctx4 = (case selectionCanvasRef v of
                         Some sc \<Rightarrow>
                           if isDragging v then
                             ctx_restore (drawImage sc ((ctx_save ctx3)\<lparr> globalAlpha := 0.4 \<rparr>))
                           else ctx3
                       | None \<Rightarrow> ctx3)
           in v\<lparr> canvasRef := Some ctx4 \<rparr>)
      | _ \<Rightarrow> v)"

subsection \<open>applySmartSelection (lines 198-282)\<close>

definition colorDistance :: "real \<Rightarrow> real \<Rightarrow> real \<Rightarrow> real \<Rightarrow> real \<Rightarrow> real \<Rightarrow> real" where
  "colorDistance r1 g1 b1 r2 g2 b2 =
     Math_sqrt
       (js_add (js_add (Math_pow2 (js_sub r1 r2)) (Math_pow2 (js_sub g1 g2)))
          (Math_pow2 (js_sub b1 b2)))"

definition tolerance :: real where
  "tolerance = 80"

text \<open>The first loop (lines 232-239): the sums of the original colours of the marked pixels.\<close>

function avgLoop ::
  "byte list \<Rightarrow> byte list \<Rightarrow> nat \<Rightarrow> real \<times> real \<times> real \<times> real \<Rightarrow> real \<times> real \<times> real \<times> real"
where
  "avgLoop selectionData originalData i (totalR, totalG, totalB, count) =
     (if i < length selectionData then
        avgLoop selectionData originalData (i + 4)
          (if selectionData ! (i + 3) > 0 then
             (js_add totalR (num (originalData ! i)),
              js_add totalG (num (originalData ! (i + 1))),
              js_add totalB (num (originalData ! (i + 2))),
              js_add count 1)
           else (totalR, totalG, totalB, count))
      else (totalR, totalG, totalB, count))"
  by pat_completeness auto
termination
  by (relation "measure (\<lambda>(selectionData, originalData, i, acc). length selectionData - i)") auto

text \<open>The body of the second loop (lines 251-269), for the pixel at byte offset \<open>i\<close>.\<close>

definition editPixel ::
  "brush \<Rightarrow> real \<times> real \<times> real \<Rightarrow> byte list \<Rightarrow> byte list \<Rightarrow> nat \<Rightarrow> byte list \<Rightarrow> byte list"
where
  "editPixel mode avg selectionData originalData i maskData =
     (case avg of (avgR, avgG, avgB) \<Rightarrow>
        if selectionData ! (i + 3) > 0 then
          (let r = originalData ! i;
               g = originalData ! (i + 1);
               b = originalData ! (i + 2)
           in if colorDistance (num r) (num g) (num b) avgR avgG avgB < tolerance then
                (if mode = erase then maskData[i + 3 := 0]
                 else maskData[i := r, i + 1 := g, i + 2 := b, i + 3 := 255])
              else maskData)
        else maskData)"

function editLoop ::
  "brush \<Rightarrow> real \<times> real \<times> real \<Rightarrow> byte list \<Rightarrow> byte list \<Rightarrow> nat \<Rightarrow> byte list \<Rightarrow> byte list"
where
  "editLoop mode avg selectionData originalData i maskData =
     (if i < length selectionData then
        editLoop mode avg selectionData originalData (i + 4)
          (editPixel mode avg selectionData originalData i maskData)
      else maskData)"
  by pat_completeness auto
termination
  by (relation "measure (\<lambda>(mode, avg, selectionData, originalData, i, maskData).
        length selectionData - i)") auto

text \<open>The loops are unfolded one iteration at a time, by hand.\<close>

declare avgLoop.simps [simp del] editLoop.simps [simp del]

text \<open>
  The whole handler. It reads the three arrays (the original through a temporary
  canvas of the same size, lines 220-227), returns early when a ref is \<open>null\<close> or
  when nothing is marked, and otherwise edits \<open>maskData\<close>, writes it back to the
  offscreen canvas, clears the selection canvas, commits \<open>osc.toDataURL()\<close> to the
  history and renders. The brush mode is the one of the store.

  Two functions of the browser are parameters of the model. \<open>putImageData\<close> gives
  what the canvas holds after the array is written to it, as \<open>getImageData\<close> would
  return it: browsers keep the pixels premultiplied by alpha, so a pixel written with
  alpha 0 comes back as \<open>(0, 0, 0, 0)\<close>, one with a partial alpha may come back
  rounded, and only an opaque pixel is sure to come back as written. \<open>toDataURL\<close>
  is the serialisation of the canvas.
\<close>

definition applySmartSelection ::
  "(byte list \<Rightarrow> byte list) \<Rightarrow> (byte list \<Rightarrow> string) \<Rightarrow> Viewer \<Rightarrow> Viewer"
where
  "applySmartSelection putImageData toDataURL v =
     (case (offscreenCanvasRef v, selectionCanvasRef v, canvasRef v, imgObj v) of
        (Some maskData, Some selectionData, Some ctx, Some originalData) \<Rightarrow>
          (case avgLoop selectionData originalData 0 (0, 0, 0, 0) of
             (totalR, totalG, totalB, count) \<Rightarrow>
               if count = 0 then v
               else
                 (let avgR = js_div totalR count;
                      avgG = js_div totalG count;
                      avgB = js_div totalB count;
                      edited = editLoop (brushMode (store v)) (avgR, avgG, avgB)
                                 selectionData originalData 0 maskData;
                      osc = putImageData edited;
                      cleared = replicate (length selectionData) 0;
                      v1 = v\<lparr> offscreenCanvasRef := Some osc,
                              selectionCanvasRef := Some cleared \<rparr>;
                      v2 = v1\<lparr> store := addToHistory (toDataURL osc) (store v1) \<rparr>
                  in render v2))
      | _ \<Rightarrow> v)"

subsection \<open>What the specification says of a resolved stroke\<close>

text \<open>
  The specification's reading of the three buffers, pixel by pixel: pixel \<open>k\<close> occupies
  the bytes \<open>4 * k\<close> to \<open>4 * k + 3\<close>. These definitions follow the specification, to be
  compared with the loops above. The mean and the distance come twice: with the exact
  arithmetic of the specification's words (\<open>spec_mean\<close>, \<open>spec_distance\<close>), and
  rounded to doubles where the source rounds (\<open>dbl_mean\<close>, \<open>dbl_distance\<close>).
\<close>

definition spec_pixel :: "byte list \<Rightarrow> nat \<Rightarrow> byte \<times> byte \<times> byte \<times> byte" where
  "spec_pixel d k = (d ! (4 * k), d ! (4 * k + 1), d ! (4 * k + 2), d ! (4 * k + 3))"

definition spec_marked :: "byte list \<Rightarrow> nat \<Rightarrow> bool" where
  "spec_marked selection k = (selection ! (4 * k + 3) > 0)"

definition spec_markedPixels :: "byte list \<Rightarrow> nat \<Rightarrow> nat list" where
  "spec_markedPixels selection n = filter (spec_marked selection) [0..<n]"

definition spec_mean :: "byte list \<Rightarrow> byte list \<Rightarrow> nat \<Rightarrow> real \<times> real \<times> real" where
  "spec_mean original selection n =
     (let ks = spec_markedPixels selection n
      in (sum_list (map (\<lambda>k. num (original ! (4 * k))) ks) / real (length ks),
          sum_list (map (\<lambda>k. num (original ! (4 * k + 1))) ks) / real (length ks),
          sum_list (map (\<lambda>k. num (original ! (4 * k + 2))) ks) / real (length ks)))"

definition spec_distance :: "byte list \<Rightarrow> nat \<Rightarrow> real \<times> real \<times> real \<Rightarrow> real" where
  "spec_distance original k avg =
     (case avg of (avgR, avgG, avgB) \<Rightarrow>
        sqrt ((num (original ! (4 * k)) - avgR)\<^sup>2
            + (num (original ! (4 * k + 1)) - avgG)\<^sup>2
            + (num (original ! (4 * k + 2)) - avgB)\<^sup>2))"

definition dbl_mean :: "byte list \<Rightarrow> byte list \<Rightarrow> nat \<Rightarrow> real \<times> real \<times> real" where
  "dbl_mean original selection n =
     (let ks = spec_markedPixels selection n
      in (rnd64 (sum_list (map (\<lambda>k. num (original ! (4 * k))) ks) / real (length ks)),
          rnd64 (sum_list (map (\<lambda>k. num (original ! (4 * k + 1))) ks) / real (length ks)),
          rnd64 (sum_list (map (\<lambda>k. num (original ! (4 * k + 2))) ks) / real (length ks))))"

definition dbl_distance :: "byte list \<Rightarrow> nat \<Rightarrow> real \<times> real \<times> real \<Rightarrow> real" where
  "dbl_distance original k avg =
     (case avg of (avgR, avgG, avgB) \<Rightarrow>
        rnd64 (sqrt
          (rnd64 (rnd64 (rnd64 ((rnd64 (num (original ! (4 * k)) - avgR))\<^sup>2)
                        + rnd64 ((rnd64 (num (original ! (4 * k + 1)) - avgG))\<^sup>2))
                  + rnd64 ((rnd64 (num (original ! (4 * k + 2)) - avgB))\<^sup>2)))))"

definition spec_edit ::
  "brush \<Rightarrow> byte list \<Rightarrow> byte list \<Rightarrow> nat \<Rightarrow> byte \<times> byte \<times> byte \<times> byte"
where
  "spec_edit mode original edited k =
     (case mode of
        erase \<Rightarrow> (edited ! (4 * k), edited ! (4 * k + 1), edited ! (4 * k + 2), 0)
      | restore \<Rightarrow> (original ! (4 * k), original ! (4 * k + 1), original ! (4 * k + 2), 255))"

text \<open>The resolve of the specification, with the exact mean and distance.\<close>

definition spec_resolve ::
  "brush \<Rightarrow> byte list \<Rightarrow> byte list \<Rightarrow> byte list \<Rightarrow> nat \<Rightarrow> nat \<Rightarrow> byte \<times> byte \<times> byte \<times> byte"
where
  "spec_resolve mode original edited selection n k =
     (if spec_marked selection k
         \<and> spec_distance original k (spec_mean original selection n) < 80
      then spec_edit mode original edited k
      else spec_pixel edited k)"

text \<open>The same resolve, with the mean and the distance in double precision.\<close>

definition dbl_resolve ::
  "brush \<Rightarrow> byte list \<Rightarrow> byte list \<Rightarrow> byte list \<Rightarrow> nat \<Rightarrow> nat \<Rightarrow> byte \<times> byte \<times> byte \<times> byte"
where
  "dbl_resolve mode original edited selection n k =
     (if spec_marked selection k
         \<and> dbl_distance original k (dbl_mean original selection n) < 80
      then spec_edit mode original edited k
      else spec_pixel edited k)"

text \<open>\<open>clamped to [lo, hi]\<close>, as the specification uses it.\<close>

definition spec_clamp :: "real \<Rightarrow> real \<Rightarrow> real \<Rightarrow> real" where
  "spec_clamp lo hi x = (if x < lo then lo else if hi < x then hi else x)"

subsection \<open>Concrete inputs\<close>

definition eleven :: "input list" where
  "eleven = map Commit
     [''a'', ''b'', ''c'', ''d'', ''e'', ''f'', ''g'', ''h'', ''i'', ''j'', ''k'']"

definition ctrlShiftZ :: KeyboardEvent where
  "ctrlShiftZ = \<lparr> ctrlKey = True, metaKey = False, shiftKey = True, key = ''Z'' \<rparr>"

definition ctrlWheelOut :: WheelEvent where
  "ctrlWheelOut = \<lparr> ctrlKey = True, metaKey = False, shiftKey = False, deltaY = 100 \<rparr>"

definition undone :: AppState where
  "undone = run [Commit ''a'', Commit ''b'', ClickUndo] initialState"

text \<open>
  A stroke over four pixels: the first three are marked, the fourth is not. The mean
  colour of the marked pixels is (160, 100, 100), in doubles as in the reals: the
  first two are within the tolerance (at 60 and 20) and the third is at the distance
  80, not below it.
\<close>

definition stroke_original :: "byte list" where
  "stroke_original = [100, 100, 100, 255,  140, 100, 100, 255,  240, 100, 100, 255,  0, 0, 0, 255]"

definition stroke_selection :: "byte list" where
  "stroke_selection = [239, 68, 68, 255,  239, 68, 68, 255,  239, 68, 68, 255,  0, 0, 0, 0]"

definition strokeViewer :: Viewer where
  "strokeViewer =
     \<lparr> store = initialState, canvasRef = Some newContext,
       offscreenCanvasRef = Some stroke_original,
       selectionCanvasRef = Some stroke_selection,
       imgObj = Some stroke_original, isDragging = True \<rparr>"

text \<open>
  A stroke whose first pixel is at the exact distance 80 from the exact mean
  (526 / 3, 373 / 3, 145 / 3) of the three marked pixels.
\<close>

definition edge_original :: "byte list" where
  "edge_original = [250, 151, 59, 255,  138, 111, 43, 255,  138, 111, 43, 255,  9, 9, 9, 255]"

definition edgeViewer :: Viewer where
  "edgeViewer =
     \<lparr> store = initialState, canvasRef = Some newContext,
       offscreenCanvasRef = Some edge_original,
       selectionCanvasRef = Some stroke_selection,
       imgObj = Some edge_original, isDragging = True \<rparr>"

text \<open>
  A browser that keeps premultiplied pixels, on arrays whose alphas are 0 or 255: a
  pixel with alpha 0 is held as \<open>(0, 0, 0, 0)\<close>, any other as it is.
\<close>

fun zeroTransparent :: "byte list \<Rightarrow> byte list" where
  "zeroTransparent (r # g # b # a # rest) =
     (if a = 0 then [0, 0, 0, 0] else [r, g, b, a]) @ zeroTransparent rest"
| "zeroTransparent rest = rest"

text \<open>A viewer in restore mode during a drag, and one whose selection is empty.\<close>

definition ghostViewer :: Viewer where
  "ghostViewer =
     \<lparr> store = setBrushMode restore initialState, canvasRef = Some newContext,
       offscreenCanvasRef = Some [0, 0, 0, 0],
       selectionCanvasRef = Some [34, 197, 94, 255],
       imgObj = Some [10, 20, 30, 255], isDragging = True \<rparr>"

definition idleViewer :: Viewer where
  "idleViewer = strokeViewer\<lparr> selectionCanvasRef := Some (replicate 16 0) \<rparr>"





section \<open>Properties of the history\<close>

subsection \<open>The invariant is kept by every action\<close>

lemma js_slice0_take: "- 1 \<le> i \<Longrightarrow> js_slice0 xs (i + 1) = take (nat (i + 1)) xs"
  by (auto simp: js_slice0_def Let_def min_def)

lemma js_shift_tl: "js_shift xs = tl xs"
  by (cases xs) (simp_all add: js_shift_def)

lemma hist_inv_initial: "hist_inv initialState"
  by (simp add: hist_inv_def initialState_def)

lemma hist_inv_addToHistory: "hist_inv s \<Longrightarrow> hist_inv (addToHistory img s)"
  by (auto simp: hist_inv_def addToHistory_def Let_def js_slice0_def js_shift_tl min_def split: if_splits)

lemma hist_inv_undo: "hist_inv s \<Longrightarrow> hist_inv (undo s)"
  by (auto simp: hist_inv_def undo_def Let_def split: if_splits)

lemma hist_inv_redo: "hist_inv s \<Longrightarrow> hist_inv (redo s)"
  by (auto simp: hist_inv_def redo_def Let_def split: if_splits)

lemma hist_inv_handleKeyDown: "hist_inv s \<Longrightarrow> hist_inv (handleKeyDown e s)"
  using hist_inv_undo[of s] hist_inv_redo[of s]
  by (simp add: handleKeyDown_def setBrushSize_def setBrushMode_def hist_inv_def)

lemma hist_inv_fields:
  "history s' = history s \<Longrightarrow> historyIndex s' = historyIndex s \<Longrightarrow> hist_inv s \<Longrightarrow> hist_inv s'"
  by (simp add: hist_inv_def)

lemma hist_inv_cleared: "history s' = [] \<Longrightarrow> historyIndex s' = - 1 \<Longrightarrow> hist_inv s'"
  by (simp add: hist_inv_def)

lemma hist_inv_setProcessedImage: "hist_inv s \<Longrightarrow> hist_inv (setProcessedImage img s)"
  by (cases img) (simp_all add: setProcessedImage_def hist_inv_def Let_def)

lemma hist_inv_step:
  assumes "hist_inv s"
  shows "hist_inv (step i s)"
proof (cases i)
  case (KeyDown e)
  then show ?thesis using assms by (simp add: hist_inv_handleKeyDown)
next
  case (Wheel e)
  then show ?thesis
    using assms by (auto intro: hist_inv_fields [of _ s] simp: handleWheel_def Let_def setZoom_def)
next
  case ClickBrushMinus
  then show ?thesis
    using assms by (auto intro: hist_inv_fields [of _ s] simp: onClickBrushMinus_def setBrushSize_def)
next
  case ClickBrushPlus
  then show ?thesis
    using assms by (auto intro: hist_inv_fields [of _ s] simp: onClickBrushPlus_def setBrushSize_def)
next
  case ClickZoomOut
  then show ?thesis
    using assms by (auto intro: hist_inv_fields [of _ s] simp: onClickZoomOut_def setZoom_def)
next
  case ClickZoomIn
  then show ?thesis
    using assms by (auto intro: hist_inv_fields [of _ s] simp: onClickZoomIn_def setZoom_def)
next
  case ClickErase
  then show ?thesis
    using assms by (auto intro: hist_inv_fields [of _ s] simp: setBrushMode_def)
next
  case ClickRestore
  then show ?thesis
    using assms by (auto intro: hist_inv_fields [of _ s] simp: setBrushMode_def)
next
  case ClickUndo
  then show ?thesis using assms by (simp add: hist_inv_undo)
next
  case ClickRedo
  then show ?thesis using assms by (simp add: hist_inv_redo)
next
  case ClickStartOver
  then show ?thesis by (auto intro: hist_inv_cleared simp: reset_def)
next
  case (Commit img)
  then show ?thesis using assms by (simp add: hist_inv_addToHistory)
next
  case (Upload img)
  then show ?thesis by (auto intro: hist_inv_cleared simp: setOriginalImage_def)
next
  case (Processed img)
  then show ?thesis using assms by (simp add: hist_inv_setProcessedImage)
qed

lemma hist_inv_run: "hist_inv s \<Longrightarrow> hist_inv (run inputs s)"
  unfolding run_def by (induction inputs arbitrary: s) (simp_all add: hist_inv_step)

lemma addToHistory_index_last:
  "historyIndex (addToHistory img s) = int (length (history (addToHistory img s))) - 1"
  by (simp add: addToHistory_def Let_def)

lemma addToHistory_evicts:
  "length (history s) = 10 \<Longrightarrow> historyIndex s = 9 \<Longrightarrow> history (addToHistory img s) = tl (history s) @ [img]"
  by (cases "history s") (simp_all add: addToHistory_def Let_def js_slice0_def js_shift_tl)

lemma addToHistory_history:
  "hist_inv s \<Longrightarrow> history (addToHistory img s) =
     (if historyIndex s = 9 then tl (history s) @ [img]
      else take (nat (historyIndex s + 1)) (history s) @ [img])"
  by (cases "history s") (auto simp add: hist_inv_def addToHistory_def Let_def js_slice0_def js_shift_tl min_def split: if_splits)

lemma run_eleven:
  "history (run eleven initialState) = [''b'', ''c'', ''d'', ''e'', ''f'', ''g'', ''h'', ''i'', ''j'', ''k'']"
  "historyIndex (run eleven initialState) = 9"
  by (simp_all add: eleven_def run_def initialState_def addToHistory_def js_slice0_def js_shift_def Let_def)

text \<open>
  After the eleven commits, nine undos reach the index 0 and a tenth changes nothing.
\<close>

lemma eleven_then_undo:
  "historyIndex ((undo ^^ 9) (run eleven initialState)) = 0"
  "maskImage ((undo ^^ 9) (run eleven initialState)) = Some ''b''"
  "(undo ^^ 10) (run eleven initialState) = (undo ^^ 9) (run eleven initialState)"
  by (simp_all add: eval_nat_numeral undo_def run_eleven js_at_def Let_def)

lemma addToHistory_history_eq:
  "history (addToHistory img s) =
     (let pushed = js_slice0 (history s) (historyIndex s + 1) @ [img]
      in if length pushed > 10 then tl pushed else pushed)"
  by (simp add: addToHistory_def Let_def js_shift_tl)

lemma undo_steps_back:
  assumes "historyIndex c = int (length (history c)) - 1" and "2 \<le> length (history c)"
  shows "historyIndex (undo c) = int (length (history c)) - 2"
    and "history (undo c) = history c"
    and "maskImage (undo c) = Some (history c ! (length (history c) - 2))"
    and "processedImage (undo c) = Some (history c ! (length (history c) - 2))"
  using assms by (simp_all add: undo_def Let_def js_at_def nat_diff_distrib)

lemma addToHistory_nonempty: "history (addToHistory img s) \<noteq> []"
proof -
  define pushed where "pushed = js_slice0 (history s) (historyIndex s + 1) @ [img]"
  have "10 < length pushed \<Longrightarrow> tl pushed \<noteq> []" by (cases pushed) auto
  moreover have "pushed \<noteq> []" by (simp add: pushed_def)
  ultimately show ?thesis
    by (auto simp add: addToHistory_history_eq Let_def pushed_def [symmetric])
qed

lemma addToHistory_last: "last (history (addToHistory img s)) = img"
proof -
  define pushed where "pushed = js_slice0 (history s) (historyIndex s + 1) @ [img]"
  have l: "last pushed = img" by (simp add: pushed_def)
  have "10 < length pushed \<Longrightarrow> last (tl pushed) = last pushed"
    by (cases pushed) (auto simp: last_tl)
  then show ?thesis
    using l by (simp add: addToHistory_history_eq Let_def pushed_def [symmetric])
qed

lemma addToHistory_images:
  "maskImage (addToHistory img s) = Some img" "processedImage (addToHistory img s) = Some img"
  by (simp_all add: addToHistory_def Let_def)

lemma redo_at_last: "historyIndex c = int (length (history c)) - 1 \<Longrightarrow> redo c = c"
  by (simp add: redo_def)

lemma redo_undo_at_last:
  assumes ic: "historyIndex c = int (length (history c)) - 1"
    and ne: "history c \<noteq> []"
    and m: "maskImage c = Some (last (history c))"
    and p: "processedImage c = Some (last (history c))"
  shows "redo (undo c) = c"
proof (cases "2 \<le> length (history c)")
  case True
  have "js_at (history c) (int (length (history c)) - 1) = Some (last (history c))"
  proof -
    have "nat (int (length (history c)) - 1) = length (history c) - 1" by arith
    then show ?thesis using ne by (simp add: js_at_def last_conv_nth)
  qed
  then show ?thesis
    using True ic m p by (simp add: redo_def undo_def Let_def)
next
  case False
  then have "undo c = c" using ic by (simp add: undo_def)
  then show ?thesis using ic by (simp add: redo_at_last)
qed

lemma twoCommits_fields:
  "history (run [Commit ''a'', Commit ''b''] initialState) = [''a'', ''b'']"
  "historyIndex (run [Commit ''a'', Commit ''b''] initialState) = 1"
  by (simp_all add: run_def initialState_def addToHistory_def js_slice0_def Let_def)

subsection \<open>The bound and the active index\<close>

text \<open>
  C2. From any state that satisfies the invariant of the history (the initial state
  does), after every sequence of inputs, and so after every sequence of commits, undos
  and redos, the history holds at most 10 entries, and when it is not empty the active
  index is the position of an entry. Right after a commit the active index is the last
  entry, and a commit onto a full history whose last entry is active drops the oldest
  entry and appends the new one.
\<close>

theorem history_bounded_and_index_valid:
  assumes "hist_inv s"
  shows "length (history (run inputs s)) \<le> 10
       \<and> (history (run inputs s) \<noteq> [] \<longrightarrow>
            0 \<le> historyIndex (run inputs s)
          \<and> historyIndex (run inputs s) < int (length (history (run inputs s))))
       \<and> historyIndex (addToHistory img (run inputs s))
            = int (length (history (addToHistory img (run inputs s)))) - 1
       \<and> (length (history (run inputs s)) = 10 \<and> historyIndex (run inputs s) = 9 \<longrightarrow>
            history (addToHistory img (run inputs s)) = tl (history (run inputs s)) @ [img])"
proof -
  have inv: "hist_inv (run inputs s)"
    using assms by (rule hist_inv_run)
  then have "length (history (run inputs s)) \<le> 10"
    by (simp add: hist_inv_def)
  moreover have "history (run inputs s) \<noteq> [] \<longrightarrow>
            0 \<le> historyIndex (run inputs s)
          \<and> historyIndex (run inputs s) < int (length (history (run inputs s)))"
    using inv by (simp add: hist_inv_def)
  ultimately show ?thesis
    by (simp add: addToHistory_index_last addToHistory_evicts)
qed

theorem history_bounded_and_index_valid_witness:
  "hist_inv initialState
 \<and> length (history (run eleven initialState)) = 10
 \<and> historyIndex (run eleven initialState) = 9
 \<and> historyIndex (addToHistory ''l'' (run eleven initialState)) = 9
 \<and> history (addToHistory ''l'' (run eleven initialState))
      = [''c'', ''d'', ''e'', ''f'', ''g'', ''h'', ''i'', ''j'', ''k'', ''l'']"
  using history_bounded_and_index_valid [OF hist_inv_initial, of eleven "''l''"]
  by (simp add: hist_inv_initial run_eleven)

subsection \<open>Commit, undo and redo\<close>

text \<open>
  C3, as the source has it. In every state whose active index is the position of an
  entry of the history, a commit followed by an undo makes \<open>maskImage\<close>,
  \<open>processedImage\<close> and the entry at the active index equal to the entry that was
  active before the commit. (On the empty history, where the index is \<open>-1\<close>, the
  commit creates the only entry and the undo changes nothing.)
\<close>

theorem commit_then_undo_restores_prior:
  assumes "0 \<le> historyIndex s" and "historyIndex s < int (length (history s))"
  shows "maskImage (undo (addToHistory img s)) = Some (history s ! nat (historyIndex s))
       \<and> processedImage (undo (addToHistory img s)) = Some (history s ! nat (historyIndex s))
       \<and> js_at (history (undo (addToHistory img s))) (historyIndex (undo (addToHistory img s)))
            = Some (history s ! nat (historyIndex s))"
proof -
  define i where "i = nat (historyIndex s)"
  define h where "h = history s"
  define c where "c = addToHistory img s"
  have i: "historyIndex s = int i" "i < length h"
    using assms by (simp_all add: i_def h_def)
  define pushed where "pushed = take (Suc i) h @ [img]"
  have sl: "js_slice0 (history s) (historyIndex s + 1) = take (Suc i) h"
    using i by (simp add: js_slice0_take h_def nat_add_distrib)
  have lp: "length pushed = i + 2"
    using i by (simp add: pushed_def)
  have pi: "pushed ! i = h ! i"
    using i by (simp add: pushed_def nth_append)
  have hc: "history c = (if length pushed > 10 then tl pushed else pushed)"
    by (simp add: c_def addToHistory_history_eq sl pushed_def Let_def)
  have ic: "historyIndex c = int (length (history c)) - 1"
    by (simp add: c_def addToHistory_index_last)
  have len: "2 \<le> length (history c)"
    using lp by (simp add: hc)
  have entry: "history c ! (length (history c) - 2) = h ! i"
  proof (cases "length pushed > 10")
    case False
    then show ?thesis using lp pi by (simp add: hc)
  next
    case True
    then obtain j where j: "i = Suc j" using lp by (cases i) simp_all
    then show ?thesis using True lp pi by (simp add: hc nth_tl)
  qed
  have "js_at (history (undo c)) (historyIndex (undo c)) = Some (h ! i)"
    using len entry by (simp add: undo_steps_back [OF ic len] js_at_def nat_diff_distrib)
  then show ?thesis
    using entry by (simp add: undo_steps_back [OF ic len] c_def [symmetric] h_def i_def)
qed

theorem commit_then_undo_restores_prior_witness:
  "0 \<le> historyIndex (run [Commit ''a'', Commit ''b''] initialState)
 \<and> historyIndex (run [Commit ''a'', Commit ''b''] initialState)
      < int (length (history (run [Commit ''a'', Commit ''b''] initialState)))
 \<and> maskImage (undo (addToHistory ''c'' (run [Commit ''a'', Commit ''b''] initialState)))
      = Some ''b''"
  using commit_then_undo_restores_prior [of "run [Commit ''a'', Commit ''b''] initialState" "''c''"]
  by (simp add: twoCommits_fields)

text \<open>
  C3 as stated, for every history state, fails on the initial state: nothing is active
  before the commit, and after the commit and the undo the committed snapshot is.
\<close>

theorem commit_then_undo_counterexample:
  "maskImage initialState = None
 \<and> js_at (history initialState) (historyIndex initialState) = None
 \<and> maskImage (undo (addToHistory ''a'' initialState)) = Some ''a''
 \<and> js_at (history (undo (addToHistory ''a'' initialState)))
      (historyIndex (undo (addToHistory ''a'' initialState))) = Some ''a''"
  by (simp add: initialState_def addToHistory_def undo_def js_slice0_def js_at_def Let_def)

text \<open>
  C4. After a commit, an undo followed by a redo gives back the state of the store
  right after the commit, \<open>maskImage\<close> and \<open>processedImage\<close> included. When a second
  commit comes between the undo and the redo, the redo changes nothing, and (from a
  state that satisfies the invariant) the history after the second commit is the
  history up to the active index followed by the new snapshot.
\<close>

theorem undo_redo_roundtrip:
  "redo (undo (addToHistory img s)) = addToHistory img s
 \<and> redo (addToHistory img2 (undo (addToHistory img s)))
      = addToHistory img2 (undo (addToHistory img s))
 \<and> (hist_inv s \<longrightarrow>
      history (addToHistory img2 (undo (addToHistory img s)))
        = take (nat (historyIndex (undo (addToHistory img s)) + 1))
            (history (undo (addToHistory img s))) @ [img2])"
proof -
  define c where "c = addToHistory img s"
  have ic: "historyIndex c = int (length (history c)) - 1"
    by (simp add: c_def addToHistory_index_last)
  have 1: "redo (undo c) = c"
    by (rule redo_undo_at_last [OF ic])
       (simp_all add: c_def addToHistory_nonempty addToHistory_last addToHistory_images)
  have 2: "redo (addToHistory img2 (undo c)) = addToHistory img2 (undo c)"
    by (rule redo_at_last) (rule addToHistory_index_last)
  have 3: "history (addToHistory img2 (undo c))
        = take (nat (historyIndex (undo c) + 1)) (history (undo c)) @ [img2]" if "hist_inv s"
  proof -
    have invc: "hist_inv c" using that by (simp add: c_def hist_inv_addToHistory)
    then have invu: "hist_inv (undo c)" by (rule hist_inv_undo)
    have "historyIndex (undo c) \<noteq> 9"
      using invc ic by (auto simp: undo_def Let_def hist_inv_def split: if_splits)
    then show ?thesis
      using addToHistory_history [OF invu, of img2] by simp
  qed
  show ?thesis using 1 2 3 by (simp add: c_def)
qed

theorem undo_redo_roundtrip_witness:
  "hist_inv (addToHistory ''a'' initialState)
 \<and> maskImage (undo (addToHistory ''b'' (addToHistory ''a'' initialState))) = Some ''a''
 \<and> maskImage (redo (undo (addToHistory ''b'' (addToHistory ''a'' initialState)))) = Some ''b''
 \<and> history (addToHistory ''c'' (undo (addToHistory ''b'' (addToHistory ''a'' initialState))))
      = [''a'', ''c'']
 \<and> maskImage (redo (addToHistory ''c'' (undo (addToHistory ''b'' (addToHistory ''a'' initialState)))))
      = Some ''c''"
proof -
  have u: "maskImage (undo (addToHistory ''b'' (addToHistory ''a'' initialState))) = Some ''a''"
    "historyIndex (undo (addToHistory ''b'' (addToHistory ''a'' initialState))) = 0"
    "history (undo (addToHistory ''b'' (addToHistory ''a'' initialState))) = [''a'', ''b'']"
    by (simp_all add: initialState_def addToHistory_def undo_def js_slice0_def js_at_def Let_def)
  have i: "hist_inv (addToHistory ''a'' initialState)"
    by (simp add: hist_inv_addToHistory hist_inv_initial)
  show ?thesis
    using i u undo_redo_roundtrip [of "''b''" "addToHistory ''a'' initialState" "''c''"]
    by (simp add: addToHistory_images)
qed

subsection \<open>The first history entry\<close>















section \<open>Properties of the input handlers\<close>

lemma in_range_fields:
  "brushSize s' = brushSize s \<Longrightarrow> zoom s' = zoom s \<Longrightarrow> in_range s \<Longrightarrow> in_range s'"
  by (simp add: in_range_def)

lemma in_range_handleWheel: "in_range s \<Longrightarrow> in_range (handleWheel e s)"
  by (auto simp add: in_range_def handleWheel_def setZoom_def Let_def min_def max_def)

lemma in_range_undo: "in_range s \<Longrightarrow> in_range (undo s)"
  by (simp add: in_range_def undo_def Let_def)

lemma in_range_redo: "in_range s \<Longrightarrow> in_range (redo s)"
  by (simp add: in_range_def redo_def Let_def)

lemma in_range_handleKeyDown: "in_range s \<Longrightarrow> in_range (handleKeyDown e s)"
  using in_range_undo [of s] in_range_redo [of s]
  by (auto simp add: handleKeyDown_def setBrushSize_def setBrushMode_def in_range_def)

lemma in_range_step:
  assumes "in_range s"
  shows "in_range (step i s)"
proof (cases i)
  case (KeyDown e)
  then show ?thesis using assms by (simp add: in_range_handleKeyDown)
next
  case (Wheel e)
  then show ?thesis using assms by (simp add: in_range_handleWheel)
next
  case ClickBrushMinus
  then show ?thesis
    using assms by (auto simp: in_range_def onClickBrushMinus_def setBrushSize_def)
next
  case ClickBrushPlus
  then show ?thesis
    using assms by (auto simp: in_range_def onClickBrushPlus_def setBrushSize_def)
next
  case ClickZoomOut
  then show ?thesis
    using assms by (auto simp: in_range_def onClickZoomOut_def setZoom_def)
next
  case ClickZoomIn
  then show ?thesis
    using assms by (auto simp: in_range_def onClickZoomIn_def setZoom_def)
next
  case ClickErase
  then show ?thesis using assms by (simp add: in_range_def setBrushMode_def)
next
  case ClickRestore
  then show ?thesis using assms by (simp add: in_range_def setBrushMode_def)
next
  case ClickUndo
  then show ?thesis using assms by (simp add: in_range_undo)
next
  case ClickRedo
  then show ?thesis using assms by (simp add: in_range_redo)
next
  case ClickStartOver
  then show ?thesis using assms by (simp add: in_range_def reset_def)
next
  case (Commit img)
  then show ?thesis using assms by (simp add: in_range_def addToHistory_def Let_def)
next
  case (Upload img)
  then show ?thesis using assms by (simp add: in_range_def setOriginalImage_def)
next
  case (Processed img)
  then show ?thesis
    using assms by (cases img) (simp_all add: in_range_def setProcessedImage_def Let_def)
qed

lemma in_range_run: "in_range s \<Longrightarrow> in_range (run inputs s)"
  unfolding run_def by (induction inputs arbitrary: s) (simp_all add: in_range_step)

lemma handleKeyDown_z:
  "(ctrlKey e \<or> metaKey e) \<Longrightarrow> key e = ''z'' \<Longrightarrow>
     handleKeyDown e s = (if shiftKey e then redo s else undo s)"
  by (simp add: handleKeyDown_def)

lemma undone_fields:
  "history undone = [''a'', ''b'']" "historyIndex undone = 0" "maskImage undone = Some ''a''"
  by (simp_all add: undone_def run_def initialState_def addToHistory_def undo_def
      js_slice0_def js_at_def Let_def)

lemma zoom_handleWheel_bounds:
  "ctrlKey e \<or> metaKey e \<Longrightarrow> 0.1 \<le> zoom (handleWheel e s) \<and> zoom (handleWheel e s) \<le> 5"
  by (simp add: handleWheel_def setZoom_def Let_def)

lemma zoom_fold_handleWheel:
  "0.1 \<le> zoom s \<Longrightarrow> zoom s \<le> 5 \<Longrightarrow>
     0.1 \<le> zoom (fold handleWheel es s) \<and> zoom (fold handleWheel es s) \<le> 5"
proof (induction es arbitrary: s)
  case Nil
  then show ?case by simp
next
  case (Cons e es)
  have "0.1 \<le> zoom (handleWheel e s) \<and> zoom (handleWheel e s) \<le> 5"
  proof (cases "ctrlKey e \<or> metaKey e")
    case True
    then show ?thesis by (rule zoom_handleWheel_bounds)
  next
    case False
    then show ?thesis using Cons.prems by (simp add: handleWheel_def)
  qed
  then show ?case using Cons.IH by simp
qed

text \<open>
  C6, as the source has it. \<open>setBrushSize\<close> and \<open>setZoom\<close> store the value they
  are given, whatever it is. The clamping is done by their callers: the keyboard
  handler, the wheel handler and the toolbar buttons pass a clamped value, so when the
  brush size is within [10, 200] and the zoom within [0.1, 5] they stay there after
  every sequence of inputs.
\<close>

theorem setters_store_callers_clamp:
  "brushSize (setBrushSize x s) = x
 \<and> zoom (setZoom z s) = z
 \<and> (in_range s \<longrightarrow> in_range (run inputs s))"
  by (simp add: setBrushSize_def setZoom_def in_range_run)

theorem setters_store_callers_clamp_witness:
  "in_range initialState
 \<and> brushSize (setBrushSize 5 initialState) = 5
 \<and> zoom (setZoom 7 initialState) = 7
 \<and> in_range (run [ClickBrushMinus, ClickBrushMinus, ClickBrushMinus, ClickBrushMinus, ClickBrushMinus, Wheel ctrlWheelOut] initialState)
 \<and> brushSize (run [ClickBrushMinus, ClickBrushMinus, ClickBrushMinus, ClickBrushMinus, ClickBrushMinus, Wheel ctrlWheelOut] initialState) = 10"
proof -
  have r: "in_range initialState"
    by (simp add: in_range_def initialState_def)
  have "brushSize (run [ClickBrushMinus, ClickBrushMinus, ClickBrushMinus, ClickBrushMinus, ClickBrushMinus, Wheel ctrlWheelOut] initialState) = 10"
    by (simp add: run_def onClickBrushMinus_def setBrushSize_def handleWheel_def
        setZoom_def Let_def ctrlWheelOut_def initialState_def)
  then show ?thesis
    using r setters_store_callers_clamp [of 5 initialState 7
      "[ClickBrushMinus, ClickBrushMinus, ClickBrushMinus, ClickBrushMinus, ClickBrushMinus, Wheel ctrlWheelOut]"]
    by simp
qed

text \<open>
  C6 as stated fails: \<open>setBrushSize(5)\<close> stores the brush size 5 and
  \<open>setZoom(7)\<close> the zoom 7.
\<close>

theorem setters_do_not_clamp_counterexample:
  "brushSize (setBrushSize 5 initialState) = 5 \<and> \<not> in_range (setBrushSize 5 initialState)
 \<and> zoom (setZoom 7 initialState) = 7 \<and> \<not> in_range (setZoom 7 initialState)"
  by (simp add: setBrushSize_def setZoom_def in_range_def initialState_def)

text \<open>
  C8. With Ctrl and Shift held, the Z key arrives as the key value \<open>''Z''\<close>. The
  handler compares the key value with \<open>''z''\<close> only, so the event runs neither
  \<open>redo\<close> nor \<open>undo\<close>: in a state where a redo would bring back snapshot \<open>''b''\<close>,
  the handler leaves the state as it is, the active snapshot still \<open>''a''\<close>.
\<close>

theorem ctrl_shift_Z_is_ignored:
  "handleKeyDown ctrlShiftZ undone = undone
 \<and> maskImage (handleKeyDown ctrlShiftZ undone) = Some ''a''
 \<and> maskImage (redo undone) = Some ''b''"
  by (simp add: handleKeyDown_def ctrlShiftZ_def undone_fields redo_def js_at_def Let_def)

text \<open>
  C9. For every wheel event with Ctrl or Meta held, the new zoom is the old zoom times
  1.1 (\<open>deltaY \<le> 0\<close>) or times 0.9 (\<open>deltaY > 0\<close>), clamped to [0.1, 5], so it lies in
  [0.1, 5]; and from a zoom in [0.1, 5], after every sequence of wheel events the zoom
  is in [0.1, 5].
\<close>

theorem wheel_zoom_multiplies_and_clamps:
  "(ctrlKey e \<or> metaKey e \<longrightarrow>
      zoom (handleWheel e s) = spec_clamp 0.1 5 (zoom s * (if deltaY e > 0 then 0.9 else 1.1))
    \<and> 0.1 \<le> zoom (handleWheel e s) \<and> zoom (handleWheel e s) \<le> 5)
 \<and> (0.1 \<le> zoom s \<and> zoom s \<le> 5 \<longrightarrow>
      0.1 \<le> zoom (fold handleWheel es s) \<and> zoom (fold handleWheel es s) \<le> 5)"
proof -
  have "zoom (handleWheel e s) = spec_clamp 0.1 5 (zoom s * (if deltaY e > 0 then 0.9 else 1.1))"
    if "ctrlKey e \<or> metaKey e"
    using that by (simp add: handleWheel_def setZoom_def Let_def spec_clamp_def min_def max_def)
  then show ?thesis
    using zoom_handleWheel_bounds [of e s] zoom_fold_handleWheel [of s es] by blast
qed

theorem wheel_zoom_multiplies_and_clamps_witness:
  "(ctrlKey ctrlWheelOut \<or> metaKey ctrlWheelOut)
 \<and> zoom (handleWheel ctrlWheelOut initialState) = 0.9
 \<and> 0.1 \<le> zoom initialState \<and> zoom initialState \<le> 5
 \<and> zoom (handleWheel ctrlWheelOut (setZoom 0.1 initialState)) = 0.1
 \<and> 0.1 \<le> zoom (fold handleWheel (replicate 30 ctrlWheelOut) initialState)"
proof -
  have m: "ctrlKey ctrlWheelOut \<or> metaKey ctrlWheelOut" by (simp add: ctrlWheelOut_def)
  have z: "0.1 \<le> zoom initialState \<and> zoom initialState \<le> 5" by (simp add: initialState_def)
  have a: "zoom (handleWheel ctrlWheelOut initialState) = 0.9"
    using wheel_zoom_multiplies_and_clamps [of ctrlWheelOut initialState "[]"] m
    by (simp add: spec_clamp_def ctrlWheelOut_def initialState_def)
  have b: "zoom (handleWheel ctrlWheelOut (setZoom 0.1 initialState)) = 0.1"
    using wheel_zoom_multiplies_and_clamps [of ctrlWheelOut "setZoom 0.1 initialState" "[]"] m
    by (simp add: spec_clamp_def ctrlWheelOut_def setZoom_def)
  show ?thesis
    using m z a b wheel_zoom_multiplies_and_clamps [of ctrlWheelOut initialState "replicate 30 ctrlWheelOut"]
    by simp
qed

section \<open>Properties of render\<close>

lemma render_draws:
  assumes "canvasRef v = Some ctx"
    and "globalAlpha ctx = 1"
    and "ctx_filter ctx = no_filter"
    and "offscreenCanvasRef v = Some osc"
    and "selectionCanvasRef v = Some sc"
    and "imgObj v = Some img"
  shows "canvasRef (render v) = Some (ctx\<lparr> drawn :=
           (if brushMode (store v) = restore
            then [\<lparr> pixels = img, alpha = 0.3, filtered = opacity 0.3 \<rparr>] else [])
           @ [\<lparr> pixels = osc, alpha = 1, filtered = no_filter \<rparr>]
           @ (if isDragging v
              then [\<lparr> pixels = sc, alpha = 0.4, filtered = no_filter \<rparr>] else []) \<rparr>)"
  using assms
  by (simp add: render_def Let_def clearRect_def ctx_save_def ctx_restore_def drawImage_def)

text \<open>
  C7. In restore mode, during a drag, \<open>render\<close> draws three layers, bottom first:
  the original image, the edited image with the global alpha 1 and no filter, and
  the selection canvas with the global alpha 0.4 and no filter. The original is drawn
  with the global alpha 0.3 and, at the same time, with the filter \<open>opacity(0.3)\<close>:
  the opacity 0.3 is applied twice to the ghost layer, where the selection layer gets
  its 0.4 once.
\<close>

theorem render_ghost_alpha_and_filter:
  "brushMode (store ghostViewer) = restore
 \<and> canvasRef (render ghostViewer) = Some (newContext\<lparr> drawn :=
       [\<lparr> pixels = [10, 20, 30, 255], alpha = 0.3, filtered = opacity 0.3 \<rparr>,
        \<lparr> pixels = [0, 0, 0, 0], alpha = 1, filtered = no_filter \<rparr>,
        \<lparr> pixels = [34, 197, 94, 255], alpha = 0.4, filtered = no_filter \<rparr>] \<rparr>)"
  using render_draws [of ghostViewer newContext "[0, 0, 0, 0]" "[34, 197, 94, 255]" "[10, 20, 30, 255]"]
  by (simp add: ghostViewer_def newContext_def setBrushMode_def)

section \<open>Properties of applySmartSelection\<close>

subsection \<open>Rounding\<close>

lemma rne_near:
  assumes "\<bar>x - of_int m\<bar> < 1 / 2"
  shows "rne x = m"
proof -
  have lo: "of_int m - 1 / 2 < x" and hi: "x < of_int m + 1 / 2"
    using assms by linarith+
  have "of_int (m - 1) \<le> x" using lo by simp
  then have "m - 1 \<le> \<lfloor>x\<rfloor>" by (simp only: le_floor_iff)
  moreover have "x < of_int (m + 1)" using hi by simp
  then have "\<lfloor>x\<rfloor> < m + 1" by (simp only: floor_less_iff)
  ultimately consider "\<lfloor>x\<rfloor> = m" | "\<lfloor>x\<rfloor> = m - 1" by linarith
  then show ?thesis
  proof cases
    case 1
    then show ?thesis using hi by (simp add: rne_def Let_def)
  next
    case 2
    then show ?thesis using lo by (simp add: rne_def Let_def)
  qed
qed

lemma floor_log2_eq:
  assumes "2 powi k \<le> \<bar>x\<bar>" and "\<bar>x\<bar> < 2 powi (k + 1)"
  shows "\<lfloor>log 2 \<bar>x\<bar>\<rfloor> = k"
proof -
  have "(0::real) < 2 powi k" by (simp add: zero_less_power_int)
  then have pos: "0 < \<bar>x\<bar>"
    using assms(1) by linarith
  have p: "(2::real) powr (of_int j) = 2 powi j" for j
    by (simp add: powr_real_of_int')
  show ?thesis
    using assms floor_log_eq_powr_iff [OF pos, of 2 k] p [of k] p [of "k + 1"]
    by simp
qed

lemma rnd64_eval:
  assumes "2 powi k \<le> \<bar>x\<bar>" and "\<bar>x\<bar> < 2 powi (k + 1)"
    and "\<bar>x / 2 powi (k - 52) - of_int m\<bar> < 1 / 2"
  shows "rnd64 x = of_int m * 2 powi (k - 52)"
proof -
  have pos: "(0::real) < 2 powi k" by (simp add: zero_less_power_int)
  have "x \<noteq> 0"
  proof
    assume "x = 0"
    then have "(2::real) powi k \<le> 0" using assms(1) by simp
    then show False using pos by linarith
  qed
  then show ?thesis
    by (simp add: rnd64_def Let_def floor_log2_eq [OF assms(1,2)] rne_near [OF assms(3)])
qed

lemma rnd64_eval_nat:
  assumes "k \<le> 52"
    and "2 ^ k \<le> \<bar>x\<bar>" and "\<bar>x\<bar> < 2 ^ Suc k"
    and "\<bar>x * 2 ^ (52 - k) - of_int m\<bar> < 1 / 2"
  shows "rnd64 x = of_int m / 2 ^ (52 - k)"
proof -
  have u: "(2::real) powi (int k - 52) = 1 / 2 ^ (52 - k)"
    using assms(1) by (simp add: power_int_def nat_diff_distrib field_simps)
  have "rnd64 x = of_int m * 2 powi (int k - 52)"
  proof (rule rnd64_eval)
    show "2 powi int k \<le> \<bar>x\<bar>" using assms(2) by (simp add: power_int_def)
    show "\<bar>x\<bar> < 2 powi (int k + 1)"
      using assms(3) by (simp add: power_int_def nat_add_distrib)
    show "\<bar>x / 2 powi (int k - 52) - of_int m\<bar> < 1 / 2"
      using assms(4) by (simp add: u)
  qed
  then show ?thesis by (simp add: u)
qed

text \<open>An integer below \<open>2 ^ 53\<close> in magnitude is a double.\<close>

lemma rnd64_of_int:
  assumes "\<bar>i\<bar> < 2 ^ 53"
  shows "rnd64 (of_int i) = of_int i"
proof (cases "i = 0")
  case True
  then show ?thesis by (simp add: rnd64_def)
next
  case False
  define x :: real where "x = of_int i"
  have pos: "0 < \<bar>x\<bar>" using False by (simp add: x_def)
  define e where "e = \<lfloor>log 2 \<bar>x\<bar>\<rfloor>"
  have p: "(2::real) powr (of_int j) = 2 powi j" for j
    by (simp add: powr_real_of_int')
  have b: "2 powi e \<le> \<bar>x\<bar>" "\<bar>x\<bar> < 2 powi (e + 1)"
    using floor_log_eq_powr_iff [OF pos, of 2 e] p [of e] p [of "e + 1"]
    by (simp_all add: e_def)
  have "1 \<le> \<bar>i\<bar>" using False by simp
  then have "real_of_int 1 \<le> real_of_int \<bar>i\<bar>" by (simp only: of_int_le_iff)
  then have "1 \<le> \<bar>x\<bar>" by (simp add: x_def)
  then have e0: "0 \<le> e"
    by (simp add: e_def)
  have e52: "e \<le> 52"
  proof (rule ccontr)
    assume "\<not> e \<le> 52"
    then have "53 \<le> e" by simp
    then have "(2::real) powi 53 \<le> 2 powi e"
      by (intro power_int_increasing) simp_all
    then have "(2::real) ^ 53 \<le> \<bar>x\<bar>" using b(1) by (simp add: power_int_def)
    moreover have "\<bar>x\<bar> < 2 ^ 53"
    proof -
      have "real_of_int \<bar>i\<bar> < real_of_int (2 ^ 53)" using assms by (simp only: of_int_less_iff)
      then show ?thesis by (simp add: x_def)
    qed
    ultimately show False by simp
  qed
  define m where "m = i * 2 ^ nat (52 - e)"
  have u: "(2::real) powi (e - 52) * 2 ^ nat (52 - e) = 1"
    using e52 by (simp add: power_int_def field_simps)
  have d: "x / 2 powi (e - 52) = of_int m"
    using u by (simp add: m_def x_def field_simps)
  have "rnd64 x = of_int m * 2 powi (e - 52)"
    by (rule rnd64_eval [of e]) (simp_all add: b d)
  also have "\<dots> = x"
    using u by (simp add: m_def x_def field_simps)
  finally show ?thesis by (simp add: x_def)
qed

lemma rnd64_of_nat: "k < 2 ^ 53 \<Longrightarrow> rnd64 (real k) = real k"
  using rnd64_of_int [of "int k"] by simp

lemma rnd64_numeral: "(numeral w :: int) < 2 ^ 53 \<Longrightarrow> rnd64 (numeral w) = numeral w"
  using rnd64_of_int [of "numeral w"] by simp

lemma rnd64_neg_numeral: "(numeral w :: int) < 2 ^ 53 \<Longrightarrow> rnd64 (- numeral w) = - numeral w"
  using rnd64_of_int [of "- numeral w"] by simp

lemma rnd64_0 [simp]: "rnd64 0 = 0"
  by (simp add: rnd64_def)

lemma rnd64_1 [simp]: "rnd64 1 = 1"
  using rnd64_of_int [of 1] by simp

lemma js_add_nat: "a + b < 2 ^ 53 \<Longrightarrow> js_add (real a) (real b) = real (a + b)"
  using rnd64_of_nat [of "a + b"] by (simp add: js_add_def)

lemma num_nat: "num b = real (unat b)" "unat b \<le> 255"
proof -
  show "num b = real (unat b)" by (simp add: num_def)
  have "unat b < 2 ^ 8" using unsigned_less [of b, where ?'a = nat] by simp
  then show "unat b \<le> 255" by simp
qed

subsection \<open>The two loops\<close>

lemma avgLoop_sums:
  assumes "length selection = 4 * n"
  shows "tR + 255 * (n - j) < 2 ^ 53 \<Longrightarrow> tG + 255 * (n - j) < 2 ^ 53
     \<Longrightarrow> tB + 255 * (n - j) < 2 ^ 53 \<Longrightarrow> c + (n - j) < 2 ^ 53 \<Longrightarrow>
     avgLoop selection original (4 * j) (real tR, real tG, real tB, real c) =
     (real (tR + sum_list (map (\<lambda>k. unat (original ! (4 * k))) (filter (spec_marked selection) [j..<n]))),
      real (tG + sum_list (map (\<lambda>k. unat (original ! (4 * k + 1))) (filter (spec_marked selection) [j..<n]))),
      real (tB + sum_list (map (\<lambda>k. unat (original ! (4 * k + 2))) (filter (spec_marked selection) [j..<n]))),
      real (c + length (filter (spec_marked selection) [j..<n])))"
proof (induction "n - j" arbitrary: j tR tG tB c)
  case 0
  then have stop: "\<not> 4 * j < length selection" using assms by simp
  have none: "[j..<n] = []" using 0 by simp
  show ?case by (subst avgLoop.simps) (simp add: stop none)
next
  case (Suc d)
  then have lt: "j < n" and d: "d = n - Suc j" by simp_all
  have cond: "4 * j < length selection" using lt assms by simp
  have upt: "[j..<n] = j # [Suc j..<n]" using lt by (simp add: upt_conv_Cons)
  have next_i: "4 * j + 4 = 4 * Suc j" by simp
  have rest: "n - j = Suc (n - Suc j)" using lt by simp
  show ?case
  proof (cases "spec_marked selection j")
    case True
    then have m: "selection ! (4 * j + 3) > 0" by (simp add: spec_marked_def)
    define r where "r = unat (original ! (4 * j))"
    define g where "g = unat (original ! (4 * j + 1))"
    define b where "b = unat (original ! (4 * j + 2))"
    have le: "r \<le> 255" "g \<le> 255" "b \<le> 255"
      by (simp_all add: r_def g_def b_def num_nat(2))
    have numr: "num (original ! (4 * j)) = real r" "num (original ! (4 * j + 1)) = real g"
      "num (original ! (4 * j + 2)) = real b"
      by (simp_all only: num_nat(1) r_def g_def b_def)
    have small: "tR + r < 2 ^ 53" "tG + g < 2 ^ 53" "tB + b < 2 ^ 53" "c + 1 < 2 ^ 53"
      using le Suc.prems by (simp_all add: rest)
    have add: "js_add (real tR) (real r) = real (tR + r)"
      "js_add (real tG) (real g) = real (tG + g)"
      "js_add (real tB) (real b) = real (tB + b)"
      by (rule js_add_nat, rule small)+
    have add1: "js_add (real c) 1 = real (c + 1)"
      using js_add_nat [OF small(4)] by simp
    have bounds: "tR + r + 255 * (n - Suc j) < 2 ^ 53" "tG + g + 255 * (n - Suc j) < 2 ^ 53"
      "tB + b + 255 * (n - Suc j) < 2 ^ 53" "c + 1 + (n - Suc j) < 2 ^ 53"
      using le Suc.prems by (simp_all add: rest)
    have "avgLoop selection original (4 * j) (real tR, real tG, real tB, real c)
        = avgLoop selection original (4 * Suc j) (real (tR + r), real (tG + g), real (tB + b), real (c + 1))"
      by (subst avgLoop.simps) (simp only: cond m if_True numr add add1 next_i)
    also note Suc.hyps(1) [OF d bounds]
    finally show ?thesis
      by (simp add: upt True r_def g_def b_def add.assoc)
  next
    case False
    then have m: "\<not> selection ! (4 * j + 3) > 0" by (simp add: spec_marked_def)
    have bounds: "tR + 255 * (n - Suc j) < 2 ^ 53" "tG + 255 * (n - Suc j) < 2 ^ 53"
      "tB + 255 * (n - Suc j) < 2 ^ 53" "c + (n - Suc j) < 2 ^ 53"
      using Suc.prems by (simp_all add: rest)
    have "avgLoop selection original (4 * j) (real tR, real tG, real tB, real c)
        = avgLoop selection original (4 * Suc j) (real tR, real tG, real tB, real c)"
      by (subst avgLoop.simps) (simp only: cond m if_True if_False next_i)
    also note Suc.hyps(1) [OF d bounds]
    finally show ?thesis
      by (simp add: upt False)
  qed
qed

lemma avgLoop_totals:
  assumes "length selection = 4 * n" and "255 * n < 2 ^ 53"
  shows "avgLoop selection original 0 (0, 0, 0, 0) =
     (sum_list (map (\<lambda>k. num (original ! (4 * k))) (spec_markedPixels selection n)),
      sum_list (map (\<lambda>k. num (original ! (4 * k + 1))) (spec_markedPixels selection n)),
      sum_list (map (\<lambda>k. num (original ! (4 * k + 2))) (spec_markedPixels selection n)),
      real (length (spec_markedPixels selection n)))"
proof -
  have s: "sum_list (map (\<lambda>k. num (f k)) ks) = real (sum_list (map (\<lambda>k. unat (f k)) ks))"
    for f :: "nat \<Rightarrow> byte" and ks
    by (induction ks) (simp_all add: num_def)
  have n: "n < 2 ^ 53" using assms(2) by simp
  show ?thesis
    using avgLoop_sums [OF assms(1), of 0 0 0 0 0 original] assms(2) n
    by (simp add: spec_markedPixels_def s)
qed

text \<open>With no marked pixel the first loop adds nothing.\<close>

lemma avgLoop_unmarked:
  assumes "length selection = 4 * n"
  shows "filter (spec_marked selection) [j..<n] = [] \<Longrightarrow>
     avgLoop selection original (4 * j) acc = acc"
proof (induction "n - j" arbitrary: j)
  case 0
  then have stop: "\<not> 4 * j < length selection" using assms by simp
  obtain tR tG tB c where acc: "acc = (tR, tG, tB, c)" by (cases acc) auto
  show ?case unfolding acc by (subst avgLoop.simps) (simp add: stop)
next
  case (Suc d)
  then have lt: "j < n" and d: "d = n - Suc j" by simp_all
  have cond: "4 * j < length selection" using lt assms by simp
  have upt: "[j..<n] = j # [Suc j..<n]" using lt by (simp add: upt_conv_Cons)
  have m: "\<not> selection ! (4 * j + 3) > 0"
    using Suc.prems by (simp add: upt spec_marked_def split: if_splits)
  have rest: "filter (spec_marked selection) [Suc j..<n] = []"
    using Suc.prems by (simp add: upt split: if_splits)
  have next_i: "4 * j + 4 = 4 * Suc j" by simp
  obtain tR tG tB c where acc: "acc = (tR, tG, tB, c)" by (cases acc) auto
  have "avgLoop selection original (4 * j) acc = avgLoop selection original (4 * Suc j) acc"
    unfolding acc by (subst avgLoop.simps) (simp only: cond m if_True if_False next_i)
  then show ?case using Suc.hyps(1) [OF d rest] by simp
qed

lemma markedPixels_empty_iff:
  "spec_markedPixels selection n = [] \<longleftrightarrow> (\<forall>k<n. selection ! (4 * k + 3) = 0)"
  by (auto simp add: spec_markedPixels_def spec_marked_def filter_empty_conv word_neq_0_conv [symmetric])

lemma length_editPixel [simp]:
  "length (editPixel mode avg selection original i maskData) = length maskData"
  by (cases avg) (simp add: editPixel_def Let_def)

lemma length_editLoop:
  "length (editLoop mode avg selection original i maskData) = length maskData"
  by (induction mode avg selection original i maskData rule: editLoop.induct)
     (subst editLoop.simps, simp)

lemma colorDistance_dbl:
  "colorDistance (num (original ! (4 * k))) (num (original ! (4 * k + 1)))
     (num (original ! (4 * k + 2))) avgR avgG avgB
   = dbl_distance original k (avgR, avgG, avgB)"
  by (simp add: colorDistance_def dbl_distance_def Math_sqrt_def Math_pow2_def js_add_def
      js_sub_def power2_eq_square)

lemma spec_pixel_editPixel_same:
  assumes "length maskData = 4 * n" and "j < n"
  shows "spec_pixel (editPixel mode avg selection original (4 * j) maskData) j =
     (if spec_marked selection j \<and> dbl_distance original j avg < 80
      then spec_edit mode original maskData j else spec_pixel maskData j)"
proof -
  obtain avgR avgG avgB where avg: "avg = (avgR, avgG, avgB)" by (cases avg) auto
  have in_range: "4 * j + 3 < length maskData" using assms by simp
  have d: "colorDistance (num (original ! (4 * j))) (num (original ! (4 * j + 1)))
     (num (original ! (4 * j + 2))) avgR avgG avgB = dbl_distance original j avg"
    by (simp only: avg colorDistance_dbl)
  show ?thesis
  proof (cases "spec_marked selection j \<and> dbl_distance original j avg < 80")
    case True
    then have "selection ! (4 * j + 3) > 0" by (simp add: spec_marked_def)
    then have "editPixel mode avg selection original (4 * j) maskData =
        (if mode = erase then maskData[4 * j + 3 := 0]
         else maskData[4 * j := original ! (4 * j), 4 * j + 1 := original ! (4 * j + 1),
                4 * j + 2 := original ! (4 * j + 2), 4 * j + 3 := 255])"
      using True by (simp only: avg editPixel_def Let_def prod.case d [unfolded avg] tolerance_def) simp
    then show ?thesis
      using True in_range by (cases mode) (simp_all add: spec_edit_def spec_pixel_def nth_list_update)
  next
    case False
    then have "editPixel mode avg selection original (4 * j) maskData = maskData"
      by (simp only: avg editPixel_def Let_def prod.case d [unfolded avg] tolerance_def spec_marked_def)
         auto
    then show ?thesis by (simp only: False if_False)
  qed
qed

lemma spec_pixel_editPixel_other:
  assumes "k \<noteq> j"
  shows "spec_pixel (editPixel mode avg selection original (4 * j) maskData) k = spec_pixel maskData k"
proof -
  obtain avgR avgG avgB where avg: "avg = (avgR, avgG, avgB)" by (cases avg) auto
  consider "k < j" | "j < k" using assms by arith
  then show ?thesis
  proof cases
    case 1
    then show ?thesis
      by (simp add: avg editPixel_def Let_def spec_pixel_def)
  next
    case 2
    then show ?thesis
      by (simp add: avg editPixel_def Let_def spec_pixel_def)
  qed
qed

lemma spec_edit_cong:
  "spec_pixel edited1 k = spec_pixel maskData k
     \<Longrightarrow> spec_edit mode original edited1 k = spec_edit mode original maskData k"
  by (cases mode) (simp_all add: spec_edit_def spec_pixel_def)

lemma editLoop_pixels:
  assumes "length selection = 4 * n"
  shows "length maskData = 4 * n \<Longrightarrow> k < n \<Longrightarrow>
     spec_pixel (editLoop mode avg selection original (4 * j) maskData) k =
       (if j \<le> k \<and> spec_marked selection k \<and> dbl_distance original k avg < 80
        then spec_edit mode original maskData k
        else spec_pixel maskData k)"
proof (induction "n - j" arbitrary: j maskData)
  case 0
  then have stop: "\<not> 4 * j < length selection" using assms by simp
  have "\<not> j \<le> k" using 0 by simp
  then show ?case by (subst editLoop.simps) (simp add: stop)
next
  case (Suc d)
  then have lt: "j < n" and d: "d = n - Suc j" by simp_all
  have cond: "4 * j < length selection" using lt assms by simp
  define edited1 where "edited1 = editPixel mode avg selection original (4 * j) maskData"
  have len': "length edited1 = 4 * n" using Suc.prems by (simp add: edited1_def)
  have unfold: "editLoop mode avg selection original (4 * j) maskData
      = editLoop mode avg selection original (4 * Suc j) edited1"
  proof -
    have "4 * Suc j = 4 * j + 4" by simp
    then show ?thesis
      by (subst editLoop.simps) (simp only: cond if_True edited1_def)
  qed
  have IH: "spec_pixel (editLoop mode avg selection original (4 * Suc j) edited1) k =
       (if Suc j \<le> k \<and> spec_marked selection k \<and> dbl_distance original k avg < 80
        then spec_edit mode original edited1 k
        else spec_pixel edited1 k)"
    using Suc.hyps(1) [OF d len' Suc.prems(2)] .
  show ?case
  proof (cases "k = j")
    case True
    have "spec_pixel (editLoop mode avg selection original (4 * Suc j) edited1) k
        = spec_pixel edited1 k"
      using IH True by simp
    also have "\<dots> = (if spec_marked selection j \<and> dbl_distance original j avg < 80
        then spec_edit mode original maskData j
        else spec_pixel maskData j)"
      unfolding edited1_def True by (rule spec_pixel_editPixel_same [OF Suc.prems(1) lt])
    finally show ?thesis
      using True by (simp only: unfold) simp
  next
    case False
    then have same: "spec_pixel edited1 k = spec_pixel maskData k"
      by (simp add: edited1_def spec_pixel_editPixel_other)
    have "j \<le> k \<longleftrightarrow> Suc j \<le> k" using False by auto
    then show ?thesis
      using IH by (simp only: unfold same spec_edit_cong [OF same])
  qed
qed

subsection \<open>Roundings of the stroke at the exact distance 80\<close>

lemma rnd64_sqrt_eval:
  assumes "k \<le> 52" and "0 < m"
    and "(2 ^ k)\<^sup>2 \<le> s" and "s < (2 ^ Suc k)\<^sup>2"
    and "((of_int m - 1 / 2) / 2 ^ (52 - k))\<^sup>2 < s"
    and "s < ((of_int m + 1 / 2) / 2 ^ (52 - k))\<^sup>2"
  shows "rnd64 (sqrt s) = of_int m / 2 ^ (52 - k)"
proof (rule rnd64_eval_nat [OF assms(1)])
  have "0 \<le> ((2::real) ^ k)\<^sup>2" by simp
  then have s0: "0 \<le> s" using assms(3) by linarith
  have "2 ^ k \<le> sqrt s"
    using assms(3) by (simp add: real_le_rsqrt)
  then show "2 ^ k \<le> \<bar>sqrt s\<bar>" by simp
  have "sqrt s < 2 ^ Suc k"
    using assms(4) by (intro real_less_lsqrt) simp_all
  then show "\<bar>sqrt s\<bar> < 2 ^ Suc k" using s0 by simp
  have pos: "(0::real) < 2 ^ (52 - k)" by simp
  have lo: "(of_int m - 1 / 2) / 2 ^ (52 - k) < sqrt s"
    using assms(5) by (rule real_less_rsqrt)
  have "0 \<le> (real_of_int m + 1 / 2) / 2 ^ (52 - k)"
    using assms(2) by simp
  then have hi: "sqrt s < (of_int m + 1 / 2) / 2 ^ (52 - k)"
    using assms(6) by (intro real_less_lsqrt) simp_all
  have "of_int m - 1 / 2 < sqrt s * 2 ^ (52 - k)"
    using lo pos by (simp add: field_simps)
  moreover have "sqrt s * 2 ^ (52 - k) < of_int m + 1 / 2"
    using hi pos by (simp add: field_simps)
  ultimately show "\<bar>sqrt s * 2 ^ (52 - k) - of_int m\<bar> < 1 / 2"
    by linarith
qed

lemma edge_avg:
  "js_div 526 3 = 6168993239575211 / 35184372088832"
  "js_div 373 3 = 8749180526089557 / 70368744177664"
  "js_div 145 3 = 6802311937174187 / 140737488355328"
proof -
  have avg0: "rnd64 (526 / 3) = (6168993239575211 / 35184372088832)"
    using rnd64_eval_nat [of 7 "526 / 3" "6168993239575211"] by simp
  have avg1: "rnd64 (373 / 3) = (8749180526089557 / 70368744177664)"
    using rnd64_eval_nat [of 6 "373 / 3" "8749180526089557"] by simp
  have avg2: "rnd64 (145 / 3) = (6802311937174187 / 140737488355328)"
    using rnd64_eval_nat [of 5 "145 / 3" "6802311937174187"] by simp
  show "js_div 526 3 = 6168993239575211 / 35184372088832" "js_div 373 3 = 8749180526089557 / 70368744177664" "js_div 145 3 = 6802311937174187 / 140737488355328"
    by (simp_all only: js_div_def avg0 avg1 avg2)
qed

lemma edge_distance_0:
  "colorDistance 250 151 59 (6168993239575211 / 35184372088832) (8749180526089557 / 70368744177664) (6802311937174187 / 140737488355328) = 5629499534213119 / 70368744177664"
proof -
  have p_d0: "rnd64 (250 - (6168993239575211 / 35184372088832)) = (2627099782632789 / 35184372088832)"
    using rnd64_eval_nat [of 6 "250 - (6168993239575211 / 35184372088832)" "5254199565265578"] by simp
  have p_d1: "rnd64 (151 - (8749180526089557 / 70368744177664)) = (1876499844737707 / 70368744177664)"
    using rnd64_eval_nat [of 4 "151 - (8749180526089557 / 70368744177664)" "7505999378950828"] by simp
  have p_d2: "rnd64 (59 - (6802311937174187 / 140737488355328)) = (1501199875790165 / 140737488355328)"
    using rnd64_eval_nat [of 3 "59 - (6802311937174187 / 140737488355328)" "6004799503160660"] by simp
  have p_q0: "rnd64 ((2627099782632789 / 35184372088832) * (2627099782632789 / 35184372088832)) = (383118718300615 / 68719476736)"
    using rnd64_eval_nat [of 12 "(2627099782632789 / 35184372088832) * (2627099782632789 / 35184372088832)" "6129899492809840"] by simp
  have p_q1: "rnd64 ((1876499844737707 / 70368744177664) * (1876499844737707 / 70368744177664)) = (390937467653689 / 549755813888)"
    using rnd64_eval_nat [of 9 "(1876499844737707 / 70368744177664) * (1876499844737707 / 70368744177664)" "6254999482459024"] by simp
  have p_q2: "rnd64 ((1501199875790165 / 140737488355328) * (1501199875790165 / 140737488355328)) = (8006399337547545 / 70368744177664)"
    using rnd64_eval_nat [of 6 "(1501199875790165 / 140737488355328) * (1501199875790165 / 140737488355328)" "8006399337547545"] by simp
  have p_s1: "rnd64 ((383118718300615 / 68719476736) + (390937467653689 / 549755813888)) = (3455887214058609 / 549755813888)"
    using rnd64_eval_nat [of 12 "(383118718300615 / 68719476736) + (390937467653689 / 549755813888)" "6911774428117218"] by simp
  have p_s2: "rnd64 ((3455887214058609 / 549755813888) + (8006399337547545 / 70368744177664)) = (3518437208883199 / 549755813888)"
    using rnd64_eval_nat [of 12 "(3455887214058609 / 549755813888) + (8006399337547545 / 70368744177664)" "7036874417766398"] by simp
  have p_r: "rnd64 (sqrt (3518437208883199 / 549755813888)) = 5629499534213119 / 70368744177664"
    using rnd64_sqrt_eval [of 6 5629499534213119 "3518437208883199 / 549755813888"]
    by (simp add: power2_eq_square)
  show ?thesis
    by (simp only: colorDistance_def Math_sqrt_def Math_pow2_def js_add_def js_sub_def
        p_d0 p_d1 p_d2 p_q0 p_q1 p_q2 p_s1 p_s2 p_r)
qed

lemma edge_distance_1:
  "colorDistance 138 111 43 (6168993239575211 / 35184372088832) (8749180526089557 / 70368744177664) (6802311937174187 / 140737488355328) = 5629499534213121 / 140737488355328"
proof -
  have q_d0: "rnd64 (138 - (6168993239575211 / 35184372088832)) = (- (1313549891316395 / 35184372088832))"
    using rnd64_eval_nat [of 5 "138 - (6168993239575211 / 35184372088832)" "- 5254199565265580"] by simp
  have q_d1: "rnd64 (111 - (8749180526089557 / 70368744177664)) = (- (938249922368853 / 70368744177664))"
    using rnd64_eval_nat [of 3 "111 - (8749180526089557 / 70368744177664)" "- 7505999378950824"] by simp
  have q_d2: "rnd64 (43 - (6802311937174187 / 140737488355328)) = (- (750599937895083 / 140737488355328))"
    using rnd64_eval_nat [of 2 "43 - (6802311937174187 / 140737488355328)" "- 6004799503160664"] by simp
  have q_q0: "rnd64 ((- (1313549891316395 / 35184372088832)) * (- (1313549891316395 / 35184372088832))) = (6129899492809845 / 4398046511104)"
    using rnd64_eval_nat [of 10 "(- (1313549891316395 / 35184372088832)) * (- (1313549891316395 / 35184372088832))" "6129899492809845"] by simp
  have q_q1: "rnd64 ((- (938249922368853 / 70368744177664)) * (- (938249922368853 / 70368744177664))) = (3127499741229509 / 17592186044416)"
    using rnd64_eval_nat [of 7 "(- (938249922368853 / 70368744177664)) * (- (938249922368853 / 70368744177664))" "6254999482459018"] by simp
  have q_q2: "rnd64 ((- (750599937895083 / 140737488355328)) * (- (750599937895083 / 140737488355328))) = (2001599834386889 / 70368744177664)"
    using rnd64_eval_nat [of 4 "(- (750599937895083 / 140737488355328)) * (- (750599937895083 / 140737488355328))" "8006399337547556"] by simp
  have q_s1: "rnd64 ((6129899492809845 / 4398046511104) + (3127499741229509 / 17592186044416)) = (3455887214058611 / 2199023255552)"
    using rnd64_eval_nat [of 10 "(6129899492809845 / 4398046511104) + (3127499741229509 / 17592186044416)" "6911774428117222"] by simp
  have q_s2: "rnd64 ((3455887214058611 / 2199023255552) + (2001599834386889 / 70368744177664)) = (7036874417766403 / 4398046511104)"
    using rnd64_eval_nat [of 10 "(3455887214058611 / 2199023255552) + (2001599834386889 / 70368744177664)" "7036874417766403"] by simp
  have q_r: "rnd64 (sqrt (7036874417766403 / 4398046511104)) = 5629499534213121 / 140737488355328"
    using rnd64_sqrt_eval [of 5 5629499534213121 "7036874417766403 / 4398046511104"]
    by (simp add: power2_eq_square)
  show ?thesis
    by (simp only: colorDistance_def Math_sqrt_def Math_pow2_def js_add_def js_sub_def
        q_d0 q_d1 q_d2 q_q0 q_q1 q_q2 q_s1 q_s2 q_r)
qed

lemma render_refs:
  "offscreenCanvasRef (render v) = offscreenCanvasRef v"
  "selectionCanvasRef (render v) = selectionCanvasRef v"
  "imgObj (render v) = imgObj v"
  "store (render v) = store v"
  "isDragging (render v) = isDragging v"
  by (simp_all add: render_def Let_def split: option.splits)

lemma applySmartSelection_marked:
  assumes refs: "offscreenCanvasRef v = Some edited" "selectionCanvasRef v = Some selection"
      "canvasRef v = Some ctx" "imgObj v = Some original"
    and len: "length selection = 4 * n"
    and bound: "255 * n < 2 ^ 53"
    and marked: "spec_markedPixels selection n \<noteq> []"
  shows "applySmartSelection putImageData toDataURL v =
     render (v\<lparr> offscreenCanvasRef :=
                  Some (putImageData (editLoop (brushMode (store v)) (dbl_mean original selection n)
                          selection original 0 edited)),
                selectionCanvasRef := Some (replicate (4 * n) 0),
                store := addToHistory
                  (toDataURL (putImageData (editLoop (brushMode (store v))
                                (dbl_mean original selection n) selection original 0 edited)))
                  (store v) \<rparr>)"
  using marked
  by (simp add: applySmartSelection_def refs avgLoop_totals [OF len bound] len dbl_mean_def
      js_div_def Let_def)

lemma applySmartSelection_unmarked:
  assumes sel: "selectionCanvasRef v = Some selection"
    and len: "length selection = 4 * n"
    and unmarked: "spec_markedPixels selection n = []"
  shows "applySmartSelection putImageData toDataURL v = v"
proof -
  have "avgLoop selection original (4 * 0) (0, 0, 0, 0) = (0, 0, 0, 0)" for original
    using unmarked by (intro avgLoop_unmarked [OF len]) (simp add: spec_markedPixels_def)
  then show ?thesis
    by (simp add: applySmartSelection_def sel split: option.splits)
qed

subsection \<open>The strokes, run\<close>

lemma sqrt_less_80: "sqrt x < 80 \<longleftrightarrow> x < 6400"
proof -
  have "sqrt 6400 = 80" by (rule real_sqrt_unique) simp_all
  then show ?thesis using real_sqrt_less_iff [of x 6400] by simp
qed

lemma stroke_marked: "spec_markedPixels stroke_selection 4 = [0, 1, 2]"
  by (simp add: spec_markedPixels_def spec_marked_def stroke_selection_def upt_conv_Cons)

lemma stroke_mean: "dbl_mean stroke_original stroke_selection 4 = (160, 100, 100)"
  by (simp add: dbl_mean_def stroke_marked stroke_original_def num_def Let_def rnd64_numeral)

lemma rnd64_sqrt_square: "0 \<le> x \<Longrightarrow> rnd64 x = x \<Longrightarrow> rnd64 (sqrt (x * x)) = x"
  by simp

lemma stroke_distances:
  "dbl_distance stroke_original 0 (160, 100, 100) = 60"
  "dbl_distance stroke_original 1 (160, 100, 100) = 20"
  "dbl_distance stroke_original 2 (160, 100, 100) = 80"
proof -
  have r: "rnd64 (sqrt 3600) = 60" "rnd64 (sqrt 400) = 20" "rnd64 (sqrt 6400) = 80"
    using rnd64_sqrt_square [of 60] rnd64_sqrt_square [of 20] rnd64_sqrt_square [of 80]
    by (simp_all add: rnd64_numeral)
  show "dbl_distance stroke_original 0 (160, 100, 100) = 60"
    "dbl_distance stroke_original 1 (160, 100, 100) = 20"
    "dbl_distance stroke_original 2 (160, 100, 100) = 80"
    by (simp_all add: dbl_distance_def stroke_original_def num_def rnd64_numeral
        rnd64_neg_numeral r)
qed

lemma stroke_resolved:
  "dbl_resolve erase stroke_original stroke_original stroke_selection 4 0 = (100, 100, 100, 0)"
  "dbl_resolve erase stroke_original stroke_original stroke_selection 4 1 = (140, 100, 100, 0)"
  "dbl_resolve erase stroke_original stroke_original stroke_selection 4 2 = (240, 100, 100, 255)"
  "dbl_resolve erase stroke_original stroke_original stroke_selection 4 3 = (0, 0, 0, 255)"
  unfolding dbl_resolve_def stroke_mean stroke_distances
  by (simp_all add: spec_marked_def spec_edit_def spec_pixel_def stroke_original_def
      stroke_selection_def)

lemma edge_totals:
  "avgLoop stroke_selection edge_original 0 (0, 0, 0, 0) = (526, 373, 145, 3)"
  by (simp add: avgLoop.simps stroke_selection_def edge_original_def num_def js_add_def
      rnd64_numeral)

lemma edge_edited:
  "editLoop erase (6168993239575211 / 35184372088832, 8749180526089557 / 70368744177664, 6802311937174187 / 140737488355328)
     stroke_selection edge_original 0 edge_original
   = [250, 151, 59, 0,  138, 111, 43, 0,  138, 111, 43, 0,  9, 9, 9, 255]"
  by (simp add: editLoop.simps editPixel_def edge_distance_0 edge_distance_1 tolerance_def
      stroke_selection_def edge_original_def num_def Let_def)

lemma edge_exact:
  "spec_mean edge_original stroke_selection 4 = (526 / 3, 373 / 3, 145 / 3)"
  "spec_distance edge_original 0 (526 / 3, 373 / 3, 145 / 3) = 80"
proof -
  show "spec_mean edge_original stroke_selection 4 = (526 / 3, 373 / 3, 145 / 3)"
    by (simp add: spec_mean_def stroke_marked edge_original_def num_def Let_def)
  have "sqrt 6400 = 80" by (rule real_sqrt_unique) simp_all
  then show "spec_distance edge_original 0 (526 / 3, 373 / 3, 145 / 3) = 80"
    by (simp add: spec_distance_def edge_original_def num_def power2_eq_square)
qed

subsection \<open>A stroke with a marked pixel\<close>

text \<open>
  C1, as the source has it. Let the offscreen canvas, the selection canvas and the
  original image hold \<open>n\<close> pixels each, fewer than \<open>2 ^ 53 / 255\<close>, and let the
  selection have a marked pixel (alpha not 0). \<open>applySmartSelection\<close> writes back to
  the offscreen canvas, with \<open>putImageData\<close>, an array \<open>edited'\<close> of which every
  pixel \<open>k\<close> is as follows. When \<open>k\<close> is marked and the distance of its original
  colour from the mean original colour of the marked pixels is below 80, both in
  double precision as the source computes them, its alpha is 0 and its colour is
  kept (erase), or its colour is the original's and its alpha is 255 (restore).
  Every other pixel is as \<open>getImageData\<close> returned it. The selection canvas is all
  zero afterwards. What the canvas then holds is the browser's rendition of
  \<open>edited'\<close>.
\<close>

theorem resolve_edits_selected_in_doubles:
  assumes "offscreenCanvasRef v = Some edited"
    and "selectionCanvasRef v = Some selection"
    and "canvasRef v = Some ctx"
    and "imgObj v = Some original"
    and "length edited = 4 * n"
    and "length selection = 4 * n"
    and "length original = 4 * n"
    and "255 * n < 2 ^ 53"
    and "\<exists>k<n. selection ! (4 * k + 3) \<noteq> 0"
  shows "\<exists>edited'.
           offscreenCanvasRef (applySmartSelection putImageData toDataURL v)
             = Some (putImageData edited')
         \<and> length edited' = 4 * n
         \<and> (\<forall>k<n. spec_pixel edited' k
                     = dbl_resolve (brushMode (store v)) original edited selection n k)
         \<and> selectionCanvasRef (applySmartSelection putImageData toDataURL v)
             = Some (replicate (4 * n) 0)"
proof -
  define edited' where "edited' = editLoop (brushMode (store v))
      (dbl_mean original selection n) selection original 0 edited"
  have marked: "spec_markedPixels selection n \<noteq> []"
    using assms(9) by (simp add: markedPixels_empty_iff)
  note run = applySmartSelection_marked [OF assms(1-4) assms(6) assms(8) marked,
      of putImageData toDataURL]
  have osc: "offscreenCanvasRef (applySmartSelection putImageData toDataURL v)
      = Some (putImageData edited')"
    by (simp add: run render_refs edited'_def)
  have sc: "selectionCanvasRef (applySmartSelection putImageData toDataURL v)
      = Some (replicate (4 * n) 0)"
    by (simp add: run render_refs)
  have len: "length edited' = 4 * n"
    by (simp add: edited'_def length_editLoop assms(5))
  have "spec_pixel edited' k
      = dbl_resolve (brushMode (store v)) original edited selection n k" if "k < n" for k
    using editLoop_pixels [OF assms(6) assms(5) that, of "brushMode (store v)"
        "dbl_mean original selection n" original 0]
    by (simp add: edited'_def dbl_resolve_def)
  then show ?thesis using osc sc len by blast
qed

theorem resolve_edits_selected_in_doubles_witness:
  "255 * 4 < (2::nat) ^ 53
 \<and> (\<exists>k<4. stroke_selection ! (4 * k + 3) \<noteq> 0)
 \<and> (\<exists>edited'.
       offscreenCanvasRef (applySmartSelection zeroTransparent (\<lambda>d. ''data:'') strokeViewer)
         = Some (zeroTransparent edited')
     \<and> length edited' = 16
     \<and> spec_pixel edited' 0 = (100, 100, 100, 0)
     \<and> spec_pixel edited' 1 = (140, 100, 100, 0)
     \<and> spec_pixel edited' 2 = (240, 100, 100, 255)
     \<and> spec_pixel edited' 3 = (0, 0, 0, 255))
 \<and> selectionCanvasRef (applySmartSelection zeroTransparent (\<lambda>d. ''data:'') strokeViewer)
      = Some (replicate 16 0)"
proof -
  have m: "\<exists>k<4. stroke_selection ! (4 * k + 3) \<noteq> 0"
    by (rule exI [of _ 0]) (simp add: stroke_selection_def)
  have b: "255 * 4 < (2::nat) ^ 53" by simp
  have mode: "brushMode (store strokeViewer) = erase"
    by (simp add: strokeViewer_def initialState_def)
  have refs: "offscreenCanvasRef strokeViewer = Some stroke_original"
    "selectionCanvasRef strokeViewer = Some stroke_selection"
    "canvasRef strokeViewer = Some newContext"
    "imgObj strokeViewer = Some stroke_original"
    by (simp_all add: strokeViewer_def)
  have lens: "length stroke_original = 4 * 4" "length stroke_selection = 4 * 4"
    by (simp_all add: stroke_original_def stroke_selection_def)
  note inst = resolve_edits_selected_in_doubles [OF refs lens(1) lens(2) lens(1) b m,
      of zeroTransparent "\<lambda>d. ''data:''", unfolded mode]
  then obtain edited' where e:
    "offscreenCanvasRef (applySmartSelection zeroTransparent (\<lambda>d. ''data:'') strokeViewer)
        = Some (zeroTransparent edited')"
    "length edited' = 4 * 4"
    "\<forall>k<4. spec_pixel edited' k
        = dbl_resolve erase stroke_original stroke_original stroke_selection 4 k"
    "selectionCanvasRef (applySmartSelection zeroTransparent (\<lambda>d. ''data:'') strokeViewer)
        = Some (replicate (4 * 4) 0)"
    by blast
  have "spec_pixel edited' 0 = (100, 100, 100, 0)" "spec_pixel edited' 1 = (140, 100, 100, 0)"
    "spec_pixel edited' 2 = (240, 100, 100, 255)" "spec_pixel edited' 3 = (0, 0, 0, 255)"
    using e(3) stroke_resolved by (simp_all del: One_nat_def)
  then have "\<exists>edited'.
       offscreenCanvasRef (applySmartSelection zeroTransparent (\<lambda>d. ''data:'') strokeViewer)
         = Some (zeroTransparent edited')
     \<and> length edited' = 16
     \<and> spec_pixel edited' 0 = (100, 100, 100, 0)
     \<and> spec_pixel edited' 1 = (140, 100, 100, 0)
     \<and> spec_pixel edited' 2 = (240, 100, 100, 255)
     \<and> spec_pixel edited' 3 = (0, 0, 0, 255)"
    using e(1,2) by (intro exI [of _ edited']) simp
  then show ?thesis using m b e(4) by simp
qed

text \<open>
  C1 as stated, with the exact mean and the exact distance, fails. In the stroke
  below the first pixel is marked and at the distance 80 exactly from the mean
  (526 / 3, 373 / 3, 145 / 3), so the specification leaves it as it is. In double
  precision its distance is 79.99999999999999, and \<open>applySmartSelection\<close> erases it:
  its alpha is 0 in the array written back, and a canvas that keeps premultiplied
  pixels holds \<open>(0, 0, 0, 0)\<close> for it.
\<close>

theorem resolve_at_exact_distance_80_counterexample:
  "spec_marked stroke_selection 0
 \<and> spec_distance edge_original 0 (spec_mean edge_original stroke_selection 4) = 80
 \<and> spec_resolve erase edge_original edge_original stroke_selection 4 0 = (250, 151, 59, 255)
 \<and> offscreenCanvasRef (applySmartSelection (\<lambda>d. d) (\<lambda>d. ''data:'') edgeViewer)
      = Some [250, 151, 59, 0,  138, 111, 43, 0,  138, 111, 43, 0,  9, 9, 9, 255]
 \<and> offscreenCanvasRef (applySmartSelection zeroTransparent (\<lambda>d. ''data:'') edgeViewer)
      = Some [0, 0, 0, 0,  0, 0, 0, 0,  0, 0, 0, 0,  9, 9, 9, 255]"
proof -
  have 1: "spec_marked stroke_selection 0"
    by (simp add: spec_marked_def stroke_selection_def)
  have 2: "spec_distance edge_original 0 (spec_mean edge_original stroke_selection 4) = 80"
    by (simp only: edge_exact)
  have 3: "spec_resolve erase edge_original edge_original stroke_selection 4 0
      = (250, 151, 59, 255)"
    unfolding spec_resolve_def 2 by (simp add: spec_pixel_def edge_original_def)
  have run: "offscreenCanvasRef (applySmartSelection f (\<lambda>d. ''data:'') edgeViewer)
      = Some (f [250, 151, 59, 0,  138, 111, 43, 0,  138, 111, 43, 0,  9, 9, 9, 255])" for f
    by (simp add: applySmartSelection_def edgeViewer_def edge_totals edge_avg edge_edited
        render_refs initialState_def Let_def)
  show ?thesis
    using 1 2 3 run [of "\<lambda>d. d"] run [of zeroTransparent] by simp
qed

subsection \<open>A stroke with no marked pixel\<close>

text \<open>
  C5. When no pixel of the selection is marked (every alpha is 0),
  \<open>applySmartSelection\<close> returns the state it was given: the edited image, the
  history and the active index are unchanged, so no history entry is created.
\<close>

theorem resolve_empty_selection_noop:
  assumes "selectionCanvasRef v = Some selection"
    and "length selection = 4 * n"
    and "\<forall>k<n. selection ! (4 * k + 3) = 0"
  shows "applySmartSelection putImageData toDataURL v = v
       \<and> offscreenCanvasRef (applySmartSelection putImageData toDataURL v) = offscreenCanvasRef v
       \<and> history (store (applySmartSelection putImageData toDataURL v)) = history (store v)
       \<and> historyIndex (store (applySmartSelection putImageData toDataURL v)) = historyIndex (store v)"
  using assms(3)
  by (simp add: applySmartSelection_unmarked [OF assms(1,2)] markedPixels_empty_iff)

theorem resolve_empty_selection_noop_witness:
  "selectionCanvasRef idleViewer = Some (replicate 16 0)
 \<and> length (replicate 16 (0 :: byte)) = 4 * 4
 \<and> map (\<lambda>k. replicate 16 (0 :: byte) ! (4 * k + 3)) [0, 1, 2, 3] = [0, 0, 0, 0]
 \<and> applySmartSelection zeroTransparent (\<lambda>d. ''data:'') idleViewer = idleViewer
 \<and> history (store (applySmartSelection zeroTransparent (\<lambda>d. ''data:'') idleViewer)) = []"
proof -
  have s: "selectionCanvasRef idleViewer = Some (replicate 16 0)"
    by (simp add: idleViewer_def)
  have z: "\<forall>k<4. replicate 16 (0 :: byte) ! (4 * k + 3) = 0"
    by simp
  have h: "history (store idleViewer) = []"
    by (simp add: idleViewer_def strokeViewer_def initialState_def)
  show ?thesis
    using s z h resolve_empty_selection_noop [of idleViewer "replicate 16 0" 4
        zeroTransparent "\<lambda>d. ''data:''"]
    by simp
qed

end
